theory Spec2Isabelle
  imports Main "HOL-Library.Multiset" "HOL-Library.Word"
begin

section \<open>The blob tracker of detector.h\<close>

subsection \<open>Tracked blobs\<close>

text \<open>
  \<^verbatim>\<open>trackBlobs\<close> is a template over the tracked-blob class \<^verbatim>\<open>T\<close>. The classes it is
  instantiated with live in files that are not part of the sources at hand (blob.h declares
  only \<^verbatim>\<open>init\<close>, \<^verbatim>\<open>predict\<close> and \<^verbatim>\<open>setNewMeasures\<close>), so a tracked blob is split in two:
  the part the filter works on (identity, filter state, last measurement, updated flag) is an
  arbitrary type \<open>'s\<close> with its operations passed as a record of functions, and the lifetime
  counter is spelled out.
\<close>

record 's TrackedBlob =
  core :: 's
  mLifetime :: int
  mTotalLifetime :: int

text \<open>
  Modelled from the spec: the lifetime operations of the tracked-blob class, which are missing
  from the sources. "\<^verbatim>\<open>renewLifetime\<close> resets it to the configured default; \<^verbatim>\<open>getOlder\<close>
  decrements by 1"; the default is the value handed to \<^verbatim>\<open>setLifetime\<close> (scenario 2 of the
  specification: a track born with lifetime 3 is reset to 3 when it is matched). The counter
  is a C++ \<^verbatim>\<open>int\<close>; it is modelled as an unbounded integer, decrementing \<^verbatim>\<open>INT_MIN\<close> being
  undefined in C++.
\<close>

definition setLifetime :: "int \<Rightarrow> 's TrackedBlob \<Rightarrow> 's TrackedBlob" where
  "setLifetime n b = b\<lparr>mLifetime := n, mTotalLifetime := n\<rparr>"

definition renewLifetime :: "'s TrackedBlob \<Rightarrow> 's TrackedBlob" where
  "renewLifetime b = b\<lparr>mLifetime := mTotalLifetime b\<rparr>"

definition getOlder :: "'s TrackedBlob \<Rightarrow> 's TrackedBlob" where
  "getOlder b = b\<lparr>mLifetime := mLifetime b - 1\<rparr>"

definition getLifetime :: "'s TrackedBlob \<Rightarrow> int" where
  "getLifetime b = mLifetime b"

text \<open>
  The remaining operations of \<^verbatim>\<open>T\<close> are parameters. \<open>newBlob k\<close> is the object that the
  \<open>k\<close>-th execution of the declaration \<^verbatim>\<open>T newBlob;\<close> within one call yields (the default
  constructor may hand out a fresh identifier each time). Distances are values of a linear
  order \<open>'d\<close>: the \<^verbatim>\<open>float\<close> of the source without NaN.
\<close>

record ('s, 'm, 'd) BlobOps =
  newBlob :: "nat \<Rightarrow> 's"
  init :: "'m \<Rightarrow> 's \<Rightarrow> 's"
  predict :: "'s \<Rightarrow> 's"
  setNewMeasures :: "'m \<Rightarrow> 's \<Rightarrow> 's"
  getDistanceFromPrediction :: "'s \<Rightarrow> 'm \<Rightarrow> 'd"

definition predictBlob :: "('s, 'm, 'd) BlobOps \<Rightarrow> 's TrackedBlob \<Rightarrow> 's TrackedBlob" where
  "predictBlob ops b = b\<lparr>core := predict ops (core b)\<rparr>"

definition measureBlob :: "('s, 'm, 'd) BlobOps \<Rightarrow> 'm \<Rightarrow> 's TrackedBlob \<Rightarrow> 's TrackedBlob" where
  "measureBlob ops m b = b\<lparr>core := setNewMeasures ops m (core b)\<rparr>"

definition bornBlob :: "('s, 'm, 'd) BlobOps \<Rightarrow> nat \<Rightarrow> 'm \<Rightarrow> int \<Rightarrow> 's TrackedBlob" where
  "bornBlob ops k m pLifetime =
     setLifetime pLifetime \<lparr>core = init ops m (newBlob ops k), mLifetime = 0, mTotalLifetime = 0\<rparr>"

subsection \<open>Pairs of a tracked blob and a measurement\<close>

text \<open>
  A \<^verbatim>\<open>BlobPair\<close> holds a pointer into the vector of tracked blobs and a pointer into the
  vector of measurements. Neither vector is reallocated while pairs exist, so a pointer is
  the index of the slot it points to: \<^verbatim>\<open>p.getCurrent() == &pBlobs[i]\<close> holds exactly when
  the index stored in \<open>p\<close> is \<open>i\<close>, whatever element occupies slot \<open>i\<close> by then.
\<close>

record 'd BlobPair =
  getCurrent :: nat
  getMeasure :: nat
  getDist :: 'd

definition mkBlobPair ::
  "('s, 'm, 'd) BlobOps \<Rightarrow> 's TrackedBlob list \<Rightarrow> 'm list \<Rightarrow> nat \<Rightarrow> nat \<Rightarrow> 'd BlobPair" where
  "mkBlobPair ops pBlobs pProperties j i =
     \<lparr>getCurrent = j, getMeasure = i,
      getDist = getDistanceFromPrediction ops (core (pBlobs ! j)) (pProperties ! i)\<rparr>"

text \<open>\<^verbatim>\<open>operator<\<close> of \<^verbatim>\<open>BlobPair\<close>: a pair is smaller when its distance is larger.\<close>

definition lessPair :: "('d::linorder) BlobPair \<Rightarrow> 'd BlobPair \<Rightarrow> bool" where
  "lessPair a b = (getDist a > getDist b)"

text \<open>The two nested loops that fill \<^verbatim>\<open>lSearchPairs\<close>: measurements outside, blobs inside.\<close>

definition searchPairs ::
  "('s, 'm, 'd) BlobOps \<Rightarrow> 's TrackedBlob list \<Rightarrow> 'm list \<Rightarrow> 'd BlobPair list" where
  "searchPairs ops pBlobs pProperties =
     concat (map (\<lambda>i. map (\<lambda>j. mkBlobPair ops pBlobs pProperties j i) [0..<length pBlobs])
                 [0..<length pProperties])"

text \<open>The inner loop that erases the pairs sharing the blob or the measurement of \<open>nearest\<close>.\<close>

fun erasePairs :: "'d BlobPair \<Rightarrow> 'd BlobPair list \<Rightarrow> 'd BlobPair list" where
  "erasePairs nearest [] = []"
| "erasePairs nearest (p # ps) =
     (if getCurrent p = getCurrent nearest then erasePairs nearest ps
      else if getMeasure p = getMeasure nearest then erasePairs nearest ps
      else p # erasePairs nearest ps)"

text \<open>
  \<^verbatim>\<open>make_heap\<close> followed by \<^verbatim>\<open>pop_heap\<close> belongs to the C++ library, not to the repository.
  It is the parameter \<open>popHeap\<close>: the vector after both calls. The loop may fail to end for
  an arbitrary \<open>popHeap\<close>, so it is a partial function; \<open>heapContract\<close> below states what
  the C++ standard promises, and under it the loop is shown to end.
\<close>

partial_function (option) closestPairs ::
  "('d BlobPair list \<Rightarrow> 'd BlobPair list) \<Rightarrow> 'd BlobPair list \<Rightarrow> 'd BlobPair list
     \<Rightarrow> 'd BlobPair list option" where
  "closestPairs popHeap lSearchPairs lPairs =
     (if lSearchPairs = [] then Some lPairs
      else let heap = popHeap lSearchPairs;
               nearest = last heap
           in closestPairs popHeap (erasePairs nearest (butlast heap)) (lPairs @ [nearest]))"

declare closestPairs.simps [code]

definition matchBlobs ::
  "('d BlobPair list \<Rightarrow> 'd BlobPair list) \<Rightarrow> ('s, 'm, 'd) BlobOps \<Rightarrow> 'm list
     \<Rightarrow> 's TrackedBlob list \<Rightarrow> 'd BlobPair list option" where
  "matchBlobs popHeap ops pProperties pBlobs =
     (if length pBlobs \<noteq> 0 then closestPairs popHeap (searchPairs ops pBlobs pProperties) []
      else Some [])"

text \<open>
  What the C++ standard guarantees of \<^verbatim>\<open>make_heap\<close> and \<^verbatim>\<open>pop_heap\<close> for a comparison
  that is a strict weak order: the vector is permuted and its last element is a largest one
  for \<^verbatim>\<open>operator<\<close>.
\<close>

definition heapContract :: "(('d::linorder) BlobPair list \<Rightarrow> 'd BlobPair list) \<Rightarrow> bool" where
  "heapContract popHeap =
     (\<forall>v. mset (popHeap v) = mset v \<and> (\<forall>q \<in> set v. \<not> lessPair (last (popHeap v)) q))"

subsection \<open>The three loops over the result of the matching\<close>

text \<open>The loop that feeds each matched blob its measurement and renews its lifetime.\<close>

fun updateTracked ::
  "('s, 'm, 'd) BlobOps \<Rightarrow> 'm list \<Rightarrow> 'd BlobPair list \<Rightarrow> 's TrackedBlob list
     \<Rightarrow> 's TrackedBlob list" where
  "updateTracked ops pProperties [] pBlobs = pBlobs"
| "updateTracked ops pProperties (p # lPairs) pBlobs =
     updateTracked ops pProperties lPairs
       (pBlobs[getCurrent p := renewLifetime (measureBlob ops (pProperties ! getMeasure p) (pBlobs ! getCurrent p))])"

text \<open>The flag \<^verbatim>\<open>isIn\<close> of the second and of the third loop.\<close>

fun isInCurrent :: "'d BlobPair list \<Rightarrow> nat \<Rightarrow> bool" where
  "isInCurrent [] i = False"
| "isInCurrent (p # lPairs) i = (if getCurrent p = i then True else isInCurrent lPairs i)"

fun isInMeasure :: "'d BlobPair list \<Rightarrow> nat \<Rightarrow> bool" where
  "isInMeasure [] i = False"
| "isInMeasure (p # lPairs) i = (if getMeasure p = i then True else isInMeasure lPairs i)"

text \<open>\<^verbatim>\<open>pBlobs.erase(pBlobs.begin() + i)\<close>: the later elements move one slot down.\<close>

definition eraseAt :: "nat \<Rightarrow> 'a list \<Rightarrow> 'a list" where
  "eraseAt i xs = take i xs @ drop (Suc i) xs"

text \<open>
  The loop that ages the blobs whose slot no pair points to. The pairs keep the indices they
  were built with; the vector shrinks under them.
\<close>

function deleteUntracked ::
  "'d BlobPair list \<Rightarrow> nat \<Rightarrow> 's TrackedBlob list \<Rightarrow> 's TrackedBlob list" where
  "deleteUntracked lPairs i pBlobs =
     (if i < length pBlobs then
        (if \<not> isInCurrent lPairs i then
           (let pBlobs' = pBlobs[i := getOlder (pBlobs ! i)]
            in if getLifetime (pBlobs' ! i) < 0
               then deleteUntracked lPairs i (eraseAt i pBlobs')
               else deleteUntracked lPairs (i + 1) pBlobs')
         else deleteUntracked lPairs (i + 1) pBlobs)
      else pBlobs)"
  by pat_completeness auto
termination
  by (relation "measure (\<lambda>(lPairs, i, pBlobs). length pBlobs - i)") (auto simp: eraseAt_def)

declare deleteUntracked.simps [simp del]

text \<open>
  The loop that creates a blob for each measurement no pair points to; \<open>k\<close> counts the
  blobs constructed so far in this call.
\<close>

fun createNew ::
  "('s, 'm, 'd) BlobOps \<Rightarrow> 'm list \<Rightarrow> 'd BlobPair list \<Rightarrow> int \<Rightarrow> nat list \<Rightarrow> nat
     \<Rightarrow> 's TrackedBlob list \<Rightarrow> 's TrackedBlob list" where
  "createNew ops pProperties lPairs pLifetime [] k pBlobs = pBlobs"
| "createNew ops pProperties lPairs pLifetime (i # is) k pBlobs =
     (if \<not> isInMeasure lPairs i
      then createNew ops pProperties lPairs pLifetime is (k + 1)
             (pBlobs @ [bornBlob ops k (pProperties ! i) pLifetime])
      else createNew ops pProperties lPairs pLifetime is k pBlobs)"

subsection \<open>trackBlobs\<close>

definition trackBlobs ::
  "('d BlobPair list \<Rightarrow> 'd BlobPair list) \<Rightarrow> ('s, 'm, 'd) BlobOps \<Rightarrow> 'm list
     \<Rightarrow> 's TrackedBlob list \<Rightarrow> int \<Rightarrow> 's TrackedBlob list option" where
  "trackBlobs popHeap ops pProperties pBlobs pLifetime =
     (let predicted = map (predictBlob ops) pBlobs
      in case matchBlobs popHeap ops pProperties predicted of
           None \<Rightarrow> None
         | Some lPairs \<Rightarrow>
             Some (createNew ops pProperties lPairs pLifetime [0..<length pProperties] 0
                     (deleteUntracked lPairs 0
                        (updateTracked ops pProperties lPairs predicted))))"

subsection \<open>A reference heap and a family of blobs on a line\<close>

text \<open>
  One function that meets \<open>heapContract\<close>, for running the tracker on concrete inputs: it
  moves a largest element for \<^verbatim>\<open>operator<\<close> (the first one found) to the back and keeps
  the order of the others.
\<close>

fun largestPair :: "('d::linorder) BlobPair \<Rightarrow> 'd BlobPair list \<Rightarrow> 'd BlobPair" where
  "largestPair m [] = m"
| "largestPair m (p # ps) = largestPair (if lessPair m p then p else m) ps"

definition popHeapSimple :: "('d::linorder) BlobPair list \<Rightarrow> 'd BlobPair list" where
  "popHeapSimple v =
     (case v of [] \<Rightarrow> [] | p # ps \<Rightarrow> (let m = largestPair p ps in remove1 m v @ [m]))"

text \<open>
  Blobs on a line, for concrete runs: the filter part of a blob is its identifier and its
  position, a measurement is a position, the distance is the squared difference, and
  prediction leaves the position where it is.
\<close>

definition lineOps :: "(nat \<times> int, int, int) BlobOps" where
  "lineOps =
     \<lparr>newBlob = (\<lambda>k. (100 + k, 0)),
      init = (\<lambda>m s. (fst s, m)),
      predict = (\<lambda>s. s),
      setNewMeasures = (\<lambda>m s. (fst s, m)),
      getDistanceFromPrediction = (\<lambda>s m. (snd s - m) * (snd s - m))\<rparr>"

definition lineBlob :: "nat \<Rightarrow> int \<Rightarrow> int \<Rightarrow> int \<Rightarrow> (nat \<times> int) TrackedBlob" where
  "lineBlob ident pos life tot = \<lparr>core = (ident, pos), mLifetime = life, mTotalLifetime = tot\<rparr>"

text \<open>
  The greedy matching in the words of the specification: the committed pair is a candidate
  of smallest distance, the candidates that share its blob or its measurement are dropped,
  and the matching stops when no candidate is left. \<open>J\<close> and \<open>I\<close> are the blobs and the
  measurements still free; \<open>d j i\<close> is the distance of blob \<open>j\<close> to measurement \<open>i\<close>.
\<close>

fun greedyChoice :: "(nat \<Rightarrow> nat \<Rightarrow> 'd::linorder) \<Rightarrow> nat set \<Rightarrow> nat set \<Rightarrow> 'd BlobPair list \<Rightarrow> bool" where
  "greedyChoice d J I [] = (J = {} \<or> I = {})"
| "greedyChoice d J I (p # ps) =
     (getCurrent p \<in> J \<and> getMeasure p \<in> I \<and> getDist p = d (getCurrent p) (getMeasure p) \<and>
      (\<forall>j \<in> J. \<forall>i \<in> I. getDist p \<le> d j i) \<and>
      greedyChoice d (J - {getCurrent p}) (I - {getMeasure p}) ps)"

text \<open>The pair the nested loops build for blob \<open>j\<close> and measurement \<open>i\<close>, given the distances.\<close>

definition gridPair :: "(nat \<Rightarrow> nat \<Rightarrow> 'd) \<Rightarrow> nat \<times> nat \<Rightarrow> 'd BlobPair" where
  "gridPair d c = \<lparr>getCurrent = fst c, getMeasure = snd c, getDist = d (fst c) (snd c)\<rparr>"


section \<open>The server of blobserver.cpp\<close>

subsection \<open>Messages, clients, sources and flows\<close>

text \<open>
  An \<^verbatim>\<open>atom::Message\<close> is a vector of typed values built from the arguments of an OSC
  message. The atom library is not part of the repository; its conversions \<^verbatim>\<open>atom::toInt\<close>
  and \<^verbatim>\<open>atom::toString\<close> are modelled as succeeding on a value of the matching type and
  throwing \<^verbatim>\<open>BadTypeTagError\<close> (here \<open>None\<close>) on any other. An OSC integer has 32 bits.
\<close>

datatype Value = IntValue "32 word" | FloatValue "32 word" | StringValue string

fun toInt :: "Value \<Rightarrow> 32 word option" where
  "toInt (IntValue i) = Some i"
| "toInt v = None"

fun toString :: "Value \<Rightarrow> string option" where
  "toString (StringValue s) = Some s"
| "toString v = None"

text \<open>
  An \<^verbatim>\<open>OscClient\<close> wraps the address that \<^verbatim>\<open>lo_address_new(host, port)\<close> returns. The port
  is kept as the number whose decimal form the source passes (\<^verbatim>\<open>sprintf(port, "%i", portNbr)\<close>
  at a connection, the literal \<^verbatim>\<open>"9000"\<close> elsewhere). liblo builds the URL of an address
  from the protocol, the host and the port, so two addresses of one server have the same URL
  exactly when host and port agree.
\<close>

record OscClient =
  clientHost :: string
  clientPort :: "32 word"

definition lo_address_get_url :: "OscClient \<Rightarrow> string \<times> 32 word" where
  "lo_address_get_url c = (clientHost c, clientPort c)"

record Source =
  getName :: string
  getSubsourceNbr :: "32 word"

record Flow =
  detector :: string
  sources :: "Source list"
  client :: OscClient
  flowId :: "32 word"
  run :: bool

text \<open>
  What the server does to the outside is kept as a log: the OSC messages it sends, the calls
  of a flow's detector, the writes to a flow's shared-memory image (the channel is named
  after the flow identifier), and the parameters it forwards.
\<close>

datatype Effect =
    OscSend OscClient string "Value list"
  | Detect "32 word"
  | ShmSetImage "32 word"
  | DetectorSetParameter "32 word" "Value list"
  | SourceSetParameter Source "Value list"

record App =
  mFlows :: "Flow list"
  mSources :: "Source list"
  mCurrentId :: "32 word"
  effects :: "Effect list"

text \<open>
  The collaborators of the server that are not in the sources at hand: the keys of the two
  factories, the number of sources of a detector (\<^verbatim>\<open>getSourceNbr\<close> is a static member of the
  base class), whether a source connects, the error number liblo reports for an address, the
  OSC path of a detector, and the report that the detector of a flow returns in a cycle.
\<close>

record Env =
  detectorKeys :: "string list"
  sourceKeys :: "string list"
  getSourceNbr :: nat
  sourceConnect :: "Source \<Rightarrow> bool"
  lo_address_errno :: "OscClient \<Rightarrow> int"
  getOscPath :: "string \<Rightarrow> string"
  detect :: "32 word \<Rightarrow> 32 word \<Rightarrow> Value list"

text \<open>
  A handler returns an integer to liblo, or it does not return: an exception leaves it
  (the process terminates), or it reads a vector out of range or overruns a buffer.
\<close>

datatype Fault = UncaughtException | UndefinedBehaviour

definition lo_send :: "OscClient \<Rightarrow> string \<Rightarrow> Value list \<Rightarrow> App \<Rightarrow> App" where
  "lo_send address path args st = st\<lparr>effects := effects st @ [OscSend address path args]\<rparr>"

definition initialApp :: App where
  "initialApp = \<lparr>mFlows = [], mSources = [], mCurrentId = 0, effects = []\<rparr>"

subsection \<open>Connection\<close>

text \<open>\<^verbatim>\<open>getValidId\<close>: \<^verbatim>\<open>return ++mCurrentId\<close> on an \<^verbatim>\<open>unsigned int\<close>.\<close>

definition getValidId :: "App \<Rightarrow> 32 word \<times> App" where
  "getValidId st = (mCurrentId st + 1, st\<lparr>mCurrentId := mCurrentId st + 1\<rparr>)"

text \<open>
  The port is printed into \<^verbatim>\<open>char port[8]\<close>: at most seven characters fit, sign included.
\<close>

definition portFits :: "32 word \<Rightarrow> bool" where
  "portFits portNbr = (- 999999 \<le> sint portNbr \<and> sint portNbr \<le> 9999999)"

text \<open>
  The loop over the source arguments (name, sub-source number, name, ...). A source of the
  server with the same name and number is reused; otherwise a source is created through the
  factory and connected. The result is the error text sent to the client, or the sources.
\<close>

fun allocSources :: "Env \<Rightarrow> Source list \<Rightarrow> Value list \<Rightarrow> Source list \<Rightarrow> string + Source list" where
  "allocSources env known [] srcs = Inr srcs"
| "allocSources env known [x] srcs = Inl ''Missing sub-source number''"
| "allocSources env known (x # y # rest) srcs =
     (case toString x of
        None \<Rightarrow> Inl ''Expected integer as a sub-source number''
      | Some sourceName \<Rightarrow>
          (case toInt y of
             None \<Rightarrow> Inl ''Expected integer as a sub-source number''
           | Some sourceIndex \<Rightarrow>
               (let found = filter (\<lambda>s. getName s = sourceName \<and> getSubsourceNbr s = sourceIndex) known
                in if found \<noteq> [] then allocSources env known rest (srcs @ found)
                   else if sourceName \<notin> set (sourceKeys env)
                     then Inl (''Unable to create source '' @ sourceName)
                   else if \<not> sourceConnect env \<lparr>getName = sourceName, getSubsourceNbr = sourceIndex\<rparr>
                     then Inl (''Unable to connect to source '' @ sourceName)
                   else allocSources env known rest
                          (srcs @ [\<lparr>getName = sourceName, getSubsourceNbr = sourceIndex\<rparr>]))))"

text \<open>
  The sources of the new flow join \<^verbatim>\<open>mSources\<close> unless one of that name and number is there.
  The shared-memory image of the flow is named after its identifier, and the detector is
  handed a weak pointer to each source; neither is part of the state kept here.
\<close>

fun addSources :: "Source list \<Rightarrow> Source list \<Rightarrow> Source list" where
  "addSources [] known = known"
| "addSources (s # srcs) known =
     (if \<exists>t \<in> set known. getName t = getName s \<and> getSubsourceNbr t = getSubsourceNbr s
      then addSources srcs known
      else addSources srcs (known @ [s]))"

definition createFlow :: "string \<Rightarrow> OscClient \<Rightarrow> Source list \<Rightarrow> App \<Rightarrow> App" where
  "createFlow detectorName address srcs st =
     (let (newId, st1) = getValidId st;
          flow = \<lparr>detector = detectorName, sources = srcs, client = address,
                  flowId = newId, run = False\<rparr>;
          st2 = st1\<lparr>mSources := addSources srcs (mSources st1), mFlows := mFlows st1 @ [flow]\<rparr>
      in lo_send address ''/blobserver/connect'' [StringValue ''Connected'', IntValue newId] st2)"

definition connectError :: "OscClient \<Rightarrow> string \<Rightarrow> App \<Rightarrow> Fault + int \<times> App" where
  "connectError address text st =
     Inr (1, lo_send address ''/blobserver/connect'' [StringValue text] st)"

definition oscHandlerConnect :: "Env \<Rightarrow> Value list \<Rightarrow> App \<Rightarrow> Fault + int \<times> App" where
  "oscHandlerConnect env message st =
     (if length message < 2 then Inl UndefinedBehaviour
      else case toInt (message ! 1) of
        None \<Rightarrow> Inr (1, st)
      | Some portNbr \<Rightarrow>
          if \<not> portFits portNbr then Inl UndefinedBehaviour
          else case toString (message ! 0) of
            None \<Rightarrow> Inl UncaughtException
          | Some host \<Rightarrow>
              (let address = \<lparr>clientHost = host, clientPort = portNbr\<rparr>
               in if lo_address_errno env address \<noteq> 0 then Inr (1, st)
                  else if length message < 5 then connectError address ''Too few arguments'' st
                  else case toString (message ! 2) of
                    None \<Rightarrow> connectError address ''Expected a detector type at position 2'' st
                  | Some detectorName \<Rightarrow>
                      if detectorName \<notin> set (detectorKeys env)
                      then connectError address ''Detector type not recognized'' st
                      else case allocSources env (mSources st) (drop 3 message) [] of
                        Inl text \<Rightarrow> connectError address text st
                      | Inr srcs \<Rightarrow>
                          if length srcs \<ge> getSourceNbr env
                          then Inr (0, createFlow detectorName address srcs st)
                          else connectError address ''The specified detector needs more sources'' st))"

subsection \<open>Disconnection\<close>

text \<open>
  The loop over \<^verbatim>\<open>mFlows\<close> that erases the flows of the caller; \<open>seen\<close> holds the flows
  visited and kept. After
  \<^verbatim>\<open>mFlows.erase(flow)\<close> the iterator is used again as it is: it designates the element
  that moved into the erased slot. The identifier of the message is an \<^verbatim>\<open>int\<close> compared
  with the \<^verbatim>\<open>unsigned int\<close> identifier of the flow, that is, bit for bit.
\<close>

fun eraseFlows :: "OscClient \<Rightarrow> bool \<Rightarrow> 32 word \<Rightarrow> Flow list \<Rightarrow> Flow list \<Rightarrow> App \<Rightarrow> App" where
  "eraseFlows address all detectorId seen [] st = st\<lparr>mFlows := seen\<rparr>"
| "eraseFlows address all detectorId seen (flow # flows) st =
     (if lo_address_get_url (client flow) = lo_address_get_url address
      then (if all = True \<or> detectorId = flowId flow
            then eraseFlows address all detectorId seen flows
                   (lo_send (client flow) ''/blobserver/disconnect'' [StringValue ''Disconnected''] st)
            else eraseFlows address all detectorId (seen @ [flow]) flows st)
      else eraseFlows address all detectorId (seen @ [flow]) flows st)"

definition oscHandlerDisconnect :: "Env \<Rightarrow> Value list \<Rightarrow> App \<Rightarrow> Fault + int \<times> App" where
  "oscHandlerDisconnect env message st =
     (if length message < 1 then Inl UndefinedBehaviour
      else case toString (message ! 0) of
        None \<Rightarrow> Inl UncaughtException
      | Some addressStr \<Rightarrow>
          (let address = \<lparr>clientHost = addressStr, clientPort = 9000\<rparr>
           in if lo_address_errno env address \<noteq> 0 then Inr (1, st)
              else if length message \<noteq> 1 \<and> length message \<noteq> 2
                then Inr (1, lo_send address ''/blobserver/disconnect''
                               [StringValue ''Wrong number of arguments''] st)
              else if length message = 1
                then Inr (0, eraseFlows address True 0 [] (mFlows st) st)
              else case toInt (message ! 1) of
                None \<Rightarrow> Inl UncaughtException
              | Some detectorId \<Rightarrow> Inr (0, eraseFlows address False detectorId [] (mFlows st) st)))"

subsection \<open>Parameters, start and stop\<close>

text \<open>
  The loop of \<^verbatim>\<open>oscHandlerSetParameter\<close> over the flows; \<open>seen\<close> holds the flows already
  visited. Every flow whose identifier is the one of the message is served. The source
  number is an \<^verbatim>\<open>int\<close> compared with an unsigned size: a negative number counts as too large.
\<close>

fun setParameterFlows ::
  "Value list \<Rightarrow> 32 word \<Rightarrow> Flow list \<Rightarrow> Flow list \<Rightarrow> int \<Rightarrow> App \<Rightarrow> Fault + int \<times> App" where
  "setParameterFlows message ident seen [] result st = Inr (result, st\<lparr>mFlows := seen\<rparr>)"
| "setParameterFlows message ident seen (flow # flows) result st =
     (if flowId flow = ident then
        (case toString (message ! 2) of
           None \<Rightarrow> Inl UncaughtException
         | Some target \<Rightarrow>
             if target = ''Detector'' then
               (if length message < 5
                then setParameterFlows message ident (seen @ [flow]) flows 1
                       (lo_send (client flow) ''/blobserver/setParameter''
                          [StringValue ''Wrong number of arguments''] st)
                else setParameterFlows message ident (seen @ [flow]) flows result
                       (st\<lparr>effects := effects st @ [DetectorSetParameter (flowId flow) (drop 3 message)]\<rparr>))
             else if target = ''Source'' then
               (if length message < 6
                then setParameterFlows message ident (seen @ [flow]) flows 1
                       (lo_send (client flow) ''/blobserver/setParameter''
                          [StringValue ''Wrong number of arguments''] st)
                else case toInt (message ! 3) of
                  None \<Rightarrow> Inl UncaughtException
                | Some srcNbr \<Rightarrow>
                    if sint srcNbr < 0 \<or> nat (sint srcNbr) \<ge> length (sources flow)
                    then setParameterFlows message ident (seen @ [flow]) flows 1
                           (lo_send (client flow) ''/blobserver/setParameter''
                              [StringValue ''Wrong source index''] st)
                    else setParameterFlows message ident (seen @ [flow]) flows result
                           (st\<lparr>effects := effects st @
                                 [SourceSetParameter (sources flow ! nat (sint srcNbr)) (drop 4 message)]\<rparr>))
             else if target = ''Start'' then
               setParameterFlows message ident (seen @ [flow\<lparr>run := True\<rparr>]) flows result st
             else if target = ''Stop'' then
               setParameterFlows message ident (seen @ [flow\<lparr>run := False\<rparr>]) flows result st
             else setParameterFlows message ident (seen @ [flow]) flows result st)
      else setParameterFlows message ident (seen @ [flow]) flows result st)"

definition oscHandlerSetParameter :: "Env \<Rightarrow> Value list \<Rightarrow> App \<Rightarrow> Fault + int \<times> App" where
  "oscHandlerSetParameter env message st =
     (if length message < 1 then Inl UndefinedBehaviour
      else case toString (message ! 0) of
        None \<Rightarrow> Inl UncaughtException
      | Some addressStr \<Rightarrow>
          (let address = \<lparr>clientHost = addressStr, clientPort = 9000\<rparr>
           in if length message < 3
                then Inr (1, lo_send address ''/blobserver/setParameter''
                               [StringValue ''Wrong number of arguments''] st)
              else if lo_address_errno env address \<noteq> 0 then Inr (1, st)
              else case toInt (message ! 1) of
                None \<Rightarrow> Inl UncaughtException
              | Some ident \<Rightarrow> setParameterFlows message ident [] (mFlows st) 0 st))"

subsection \<open>One cycle of the main loop\<close>

text \<open>
  The values \<^verbatim>\<open>message[i * size + 2 + j]\<close> of one blob; the index is an \<^verbatim>\<open>int\<close>, and a
  read beyond the report is undefined.
\<close>

fun readValues :: "Value list \<Rightarrow> int list \<Rightarrow> Value list option" where
  "readValues message [] = Some []"
| "readValues message (k # ks) =
     (if 0 \<le> k \<and> k < int (length message) \<and> k \<le> 2147483647
      then map_option ((#) (message ! nat k)) (readValues message ks)
      else None)"

definition blobRecord :: "Value list \<Rightarrow> int \<Rightarrow> int \<Rightarrow> Value list option" where
  "blobRecord message blobSize i =
     readValues message (map (\<lambda>j. i * blobSize + 2 + int j) [0..<nat blobSize])"

fun sendBlobs :: "Env \<Rightarrow> Flow \<Rightarrow> Value list \<Rightarrow> int \<Rightarrow> nat list \<Rightarrow> App \<Rightarrow> Fault + App" where
  "sendBlobs env flow message blobSize [] st = Inr st"
| "sendBlobs env flow message blobSize (i # is) st =
     (case blobRecord message blobSize (int i) of
        None \<Rightarrow> Inl UndefinedBehaviour
      | Some msg \<Rightarrow>
          sendBlobs env flow message blobSize is
            (lo_send (client flow) (getOscPath env (detector flow)) msg st))"

text \<open>The body of the loop over the flows, for one flow.\<close>

definition runFlow :: "Env \<Rightarrow> 32 word \<Rightarrow> Flow \<Rightarrow> App \<Rightarrow> Fault + App" where
  "runFlow env frameNbr flow st =
     (if run flow = False then Inr st
      else
        (let message = detect env (flowId flow) frameNbr;
             st1 = st\<lparr>effects := effects st @ [Detect (flowId flow), ShmSetImage (flowId flow)]\<rparr>;
             st2 = lo_send (client flow) ''/blobserver/startFrame''
                     [IntValue frameNbr, IntValue (flowId flow)] st1
         in if length message < 1 then Inl UndefinedBehaviour
            else case toInt (message ! 0) of
              None \<Rightarrow> Inl UncaughtException
            | Some nbr \<Rightarrow>
                if length message < 2 then Inl UndefinedBehaviour
                else case toInt (message ! 1) of
                  None \<Rightarrow> Inl UncaughtException
                | Some blobSize \<Rightarrow>
                    (case sendBlobs env flow message (sint blobSize) [0..<nat (sint nbr)] st2 of
                       Inl fault \<Rightarrow> Inl fault
                     | Inr st3 \<Rightarrow>
                         Inr (lo_send (client flow) ''/blobserver/endFrame''
                                [IntValue frameNbr, IntValue (flowId flow)] st3))))"

fun loopFlows :: "Env \<Rightarrow> 32 word \<Rightarrow> Flow list \<Rightarrow> App \<Rightarrow> Fault + App" where
  "loopFlows env frameNbr [] st = Inr st"
| "loopFlows env frameNbr (flow # flows) st =
     (case runFlow env frameNbr flow st of
        Inl fault \<Rightarrow> Inl fault
      | Inr st' \<Rightarrow> loopFlows env frameNbr flows st')"

definition loopCycle :: "Env \<Rightarrow> 32 word \<Rightarrow> App \<Rightarrow> Fault + App" where
  "loopCycle env frameNbr st = loopFlows env frameNbr (mFlows st) st"

subsection \<open>The server as a sequence of requests and cycles\<close>

text \<open>
  The flow mutex serialises the cycle of the main loop and the bodies of the handlers, so a
  run of the server is a sequence of requests and cycles, each applied to the state the
  previous one left.
\<close>

datatype Request =
    ConnectReq "Value list"
  | DisconnectReq "Value list"
  | SetParameterReq "Value list"
  | MainLoopCycle "32 word"

fun serve :: "Env \<Rightarrow> Request \<Rightarrow> App \<Rightarrow> Fault + App" where
  "serve env (ConnectReq message) st = map_sum (\<lambda>f. f) snd (oscHandlerConnect env message st)"
| "serve env (DisconnectReq message) st = map_sum (\<lambda>f. f) snd (oscHandlerDisconnect env message st)"
| "serve env (SetParameterReq message) st = map_sum (\<lambda>f. f) snd (oscHandlerSetParameter env message st)"
| "serve env (MainLoopCycle frameNbr) st = loopCycle env frameNbr st"

fun serveAll :: "Env \<Rightarrow> Request list \<Rightarrow> App \<Rightarrow> Fault + App" where
  "serveAll env [] st = Inr st"
| "serveAll env (r # rs) st =
     (case serve env r st of Inl fault \<Rightarrow> Inl fault | Inr st' \<Rightarrow> serveAll env rs st')"



text \<open>The identifiers that the replies \<^verbatim>\<open>("Connected", id)\<close> of a log carry, in order.\<close>

fun connectedIds :: "Effect list \<Rightarrow> 32 word list" where
  "connectedIds [] = []"
| "connectedIds (OscSend c path [StringValue s, IntValue i] # es) =
     (if path = ''/blobserver/connect'' \<and> s = ''Connected'' then i # connectedIds es
      else connectedIds es)"
| "connectedIds (e # es) = connectedIds es"


text \<open>The kinds of requests that the statements below tell apart.\<close>

fun isConnectReq :: "Request \<Rightarrow> bool" where
  "isConnectReq (ConnectReq message) = True"
| "isConnectReq r = False"



text \<open>
  The identifiers that the connect requests of a run return to their callers, in order. A
  reply \<^verbatim>\<open>("Connected", id)\<close> carries the identifier as the \<^verbatim>\<open>int\<close> that \<^verbatim>\<open>(int)flow.id\<close> is (a
  32-bit integer in two's complement); the replies are read off what each connect request adds
  to the log. The result is \<open>None\<close> when a request of the run faults.
\<close>

fun returnedIds :: "Env \<Rightarrow> Request list \<Rightarrow> App \<Rightarrow> int list option" where
  "returnedIds env [] st = Some []"
| "returnedIds env (r # rs) st =
     (case serve env r st of
        Inl fault \<Rightarrow> None
      | Inr st' \<Rightarrow>
          (case returnedIds env rs st' of
             None \<Rightarrow> None
           | Some ids \<Rightarrow>
               Some ((if isConnectReq r
                      then map sint (connectedIds (drop (length (effects st)) (effects st')))
                      else []) @ ids)))"

subsection \<open>Requests and states for concrete runs\<close>

text \<open>
  A small world for concrete runs: one detector class that needs one source, one source class
  that always connects, addresses that liblo accepts, and a report of two blobs of three
  values each.
\<close>

definition demoEnv :: Env where
  "demoEnv =
     \<lparr>detectorKeys = [''LightSpots''], sourceKeys = [''CamSrc''], getSourceNbr = 1,
      sourceConnect = (\<lambda>s. True), lo_address_errno = (\<lambda>a. 0),
      getOscPath = (\<lambda>d. ''/blobserver/lightSpots''),
      detect = (\<lambda>ident frameNbr. [IntValue 2, IntValue 3,
                  IntValue 10, IntValue 11, IntValue 12, IntValue 20, IntValue 21, IntValue 22])\<rparr>"

definition demoConnect :: "Value list" where
  "demoConnect = [StringValue ''10.0.0.7'', IntValue 9000, StringValue ''LightSpots'',
                  StringValue ''CamSrc'', IntValue 0]"

text \<open>Two failing connect requests: an unknown detector, and a port sent as text.\<close>

definition unknownDetector :: "Value list" where
  "unknownDetector = [StringValue ''10.0.0.7'', IntValue 9000, StringValue ''Nope'',
                      StringValue ''CamSrc'', IntValue 0]"

definition portAsText :: "Value list" where
  "portAsText = [StringValue ''10.0.0.7'', StringValue ''9000'', StringValue ''LightSpots'',
                 StringValue ''CamSrc'', IntValue 0]"

text \<open>A flow of the small world, and a server state with three flows of two subscribers.\<close>

definition demoFlow :: "string \<Rightarrow> 32 word \<Rightarrow> 32 word \<Rightarrow> bool \<Rightarrow> Flow" where
  "demoFlow hostName portNbr ident running =
     \<lparr>detector = ''LightSpots'', sources = [\<lparr>getName = ''CamSrc'', getSubsourceNbr = 0\<rparr>],
      client = \<lparr>clientHost = hostName, clientPort = portNbr\<rparr>, flowId = ident, run = running\<rparr>"

definition threeFlows :: App where
  "threeFlows =
     \<lparr>mFlows = [demoFlow ''10.0.0.7'' 9000 1 True, demoFlow ''10.0.0.8'' 9000 2 False,
                demoFlow ''10.0.0.7'' 9000 3 False],
      mSources = [\<lparr>getName = ''CamSrc'', getSubsourceNbr = 0\<rparr>], mCurrentId = 3, effects = []\<rparr>"



text \<open>
  More requests and replies of the small world: a disconnect request of the subscriber for
  flow 1, a connect request of the same host that asks for replies on port 9001, and the
  reply to a connect request for an unknown detector.
\<close>

definition disconnectSeven :: "Value list" where
  "disconnectSeven = [StringValue ''10.0.0.7'', IntValue 1]"

definition connectOn9001 :: "Value list" where
  "connectOn9001 = [StringValue ''10.0.0.7'', IntValue 9001, StringValue ''LightSpots'',
                    StringValue ''CamSrc'', IntValue 0]"


section \<open>Images\<close>

text \<open>
  A \<^verbatim>\<open>cv::Mat\<close> is a header over pixel storage that several headers may share. The store is
  the list of the allocated blocks; a header names its block, the offset of its first pixel,
  its rows and columns, and its step, the distance between the starts of two consecutive
  rows. The pixels are \<^verbatim>\<open>uchar\<close>, one byte each. A read or a write outside a block is
  undefined in C++ and is \<open>None\<close> here.
\<close>

type_synonym Store = "8 word list list"

record Mat =
  block :: nat
  offset :: nat
  rows :: nat
  cols :: nat
  step :: nat

definition readPtr :: "Store \<Rightarrow> nat \<Rightarrow> nat \<Rightarrow> 8 word option" where
  "readPtr s b i = (if b < length s \<and> i < length (s ! b) then Some (s ! b ! i) else None)"

definition writePtr :: "Store \<Rightarrow> nat \<Rightarrow> nat \<Rightarrow> 8 word \<Rightarrow> Store option" where
  "writePtr s b i v = (if b < length s \<and> i < length (s ! b) then Some (s[b := (s ! b)[i := v]]) else None)"

text \<open>\<^verbatim>\<open>&m.at<uchar>(r, c)\<close>: the position of pixel \<open>(r, c)\<close> in the block of \<open>m\<close>.\<close>

definition ptrAt :: "Mat \<Rightarrow> nat \<Rightarrow> nat \<Rightarrow> nat" where
  "ptrAt m r c = offset m + r * step m + c"

definition pixel :: "Store \<Rightarrow> Mat \<Rightarrow> nat \<Rightarrow> nat \<Rightarrow> 8 word option" where
  "pixel s m r c = (if r < rows m \<and> c < cols m then readPtr s (block m) (ptrAt m r c) else None)"

subsection \<open>Parallel\_Mask\<close>

text \<open>
  The template \<^verbatim>\<open>Parallel_Mask<PixType>\<close> initialises a \<^verbatim>\<open>PixType*\<close> with the address of a
  \<^verbatim>\<open>uchar\<close> of the mask, which C++ accepts for \<^verbatim>\<open>PixType = uchar\<close> only; this is the
  instance modelled, so both sizes below are 1. The pointers are positions in the blocks of
  the two matrices.
\<close>

definition sizeofPixType :: nat where
  "sizeofPixType = 1"

definition sizeofUchar :: nat where
  "sizeofUchar = 1"

text \<open>The inner loop over \<open>x\<close>, for the row that \<open>bufferPtr\<close> and \<open>maskPtr\<close> point to.\<close>

fun maskRow :: "Mat \<Rightarrow> Mat \<Rightarrow> nat \<Rightarrow> nat \<Rightarrow> nat list \<Rightarrow> Store \<Rightarrow> Store option" where
  "maskRow buf msk bufferPtr maskPtr [] s = Some s"
| "maskRow buf msk bufferPtr maskPtr (x # xs) s =
     (case readPtr s (block msk) (maskPtr + x * sizeofUchar) of
        None \<Rightarrow> None
      | Some v \<Rightarrow>
          if v = 0 then
            (case writePtr s (block buf) (bufferPtr + x * sizeofPixType) 0 of
               None \<Rightarrow> None
             | Some s' \<Rightarrow> maskRow buf msk bufferPtr maskPtr xs s')
          else maskRow buf msk bufferPtr maskPtr xs s)"

text \<open>
  The outer loop over \<open>y\<close>: after each row the two pointers advance by the number of columns
  of their matrix times the size of a pixel.
\<close>

fun maskRows :: "Mat \<Rightarrow> Mat \<Rightarrow> nat \<Rightarrow> nat \<Rightarrow> nat list \<Rightarrow> Store \<Rightarrow> Store option" where
  "maskRows buf msk bufferPtr maskPtr [] s = Some s"
| "maskRows buf msk bufferPtr maskPtr (y # ys) s =
     (case maskRow buf msk bufferPtr maskPtr [0..<cols buf] s of
        None \<Rightarrow> None
      | Some s' \<Rightarrow>
          maskRows buf msk (bufferPtr + cols buf * sizeofPixType)
            (maskPtr + cols msk * sizeofUchar) ys s')"

text \<open>
  \<^verbatim>\<open>operator()\<close> on the range \<open>[start, end)\<close>. The loop runs while \<^verbatim>\<open>y != r.end\<close>, so a range
  with \<open>end < start\<close> does not end properly.
\<close>

definition Parallel_Mask :: "Mat \<Rightarrow> Mat \<Rightarrow> nat \<times> nat \<Rightarrow> Store \<Rightarrow> Store option" where
  "Parallel_Mask buf msk r s =
     (if snd r < fst r then None
      else maskRows buf msk (ptrAt buf (fst r) 0) (ptrAt msk (fst r) 0) [fst r..<snd r] s)"

subsection \<open>The output image of a detector\<close>

text \<open>
  \<^verbatim>\<open>cv::Mat::clone\<close> belongs to OpenCV: it allocates a new block, copies the pixels of the
  matrix row by row, and returns a header over the new block.
\<close>

definition matPixels :: "Store \<Rightarrow> Mat \<Rightarrow> 8 word list" where
  "matPixels s m =
     concat (map (\<lambda>r. map (\<lambda>c. s ! block m ! ptrAt m r c) [0..<cols m]) [0..<rows m])"

definition clone :: "Store \<Rightarrow> Mat \<Rightarrow> Mat \<times> Store" where
  "clone s m =
     (\<lparr>block = length s, offset = 0, rows = rows m, cols = cols m, step = cols m\<rparr>,
      s @ [matPixels s m])"

record Detector =
  mOutputBuffer :: Mat
  mName :: string

text \<open>\<^verbatim>\<open>Detector::getOutput\<close>: \<^verbatim>\<open>return mOutputBuffer.clone();\<close>\<close>

definition getOutput :: "Detector \<Rightarrow> Store \<Rightarrow> Mat \<times> Store" where
  "getOutput d s = clone s (mOutputBuffer d)"

text \<open>A write of pixel \<open>(r, c)\<close> through a header, and a sequence of such writes.\<close>

definition writePixel :: "Mat \<Rightarrow> nat \<times> nat \<times> 8 word \<Rightarrow> Store \<Rightarrow> Store option" where
  "writePixel m w s =
     (case w of (r, c, v) \<Rightarrow>
        if r < rows m \<and> c < cols m then writePtr s (block m) (ptrAt m r c) v else None)"

fun writePixels :: "Mat \<Rightarrow> (nat \<times> nat \<times> 8 word) list \<Rightarrow> Store \<Rightarrow> Store option" where
  "writePixels m [] s = Some s"
| "writePixels m (w # ws) s =
     (case writePixel m w s of None \<Rightarrow> None | Some s' \<Rightarrow> writePixels m ws s')"

text \<open>A detector whose output buffer is a row of two pixels in block 0.\<close>

definition demoDetector :: Detector where
  "demoDetector = \<lparr>mOutputBuffer = \<lparr>block = 0, offset = 0, rows = 1, cols = 2, step = 2\<rparr>,
                   mName = ''LightSpots''\<rparr>"

section \<open>Properties of the tracker\<close>

subsection \<open>The matching\<close>

lemma erasePairs_filter:
  "erasePairs n ps = filter (\<lambda>p. getCurrent p \<noteq> getCurrent n \<and> getMeasure p \<noteq> getMeasure n) ps"
  by (induction ps) auto

lemma greedyChoice_members:
  "greedyChoice d J I ps \<Longrightarrow> p \<in> set ps \<Longrightarrow>
     getCurrent p \<in> J \<and> getMeasure p \<in> I \<and> getDist p = d (getCurrent p) (getMeasure p)"
  by (induction ps arbitrary: J I) auto

lemma greedyChoice_sorted: "greedyChoice d J I ps \<Longrightarrow> sorted (map getDist ps)"
proof (induction ps arbitrary: J I)
  case Nil
  then show ?case by simp
next
  case (Cons p ps)
  have rest: "greedyChoice d (J - {getCurrent p}) (I - {getMeasure p}) ps"
    and least: "\<forall>j \<in> J. \<forall>i \<in> I. getDist p \<le> d j i"
    using Cons.prems unfolding greedyChoice.simps by blast+
  have "getDist p \<le> getDist q" if "q \<in> set ps" for q
  proof -
    from greedyChoice_members[OF rest that]
    have "getCurrent q \<in> J" "getMeasure q \<in> I" "getDist q = d (getCurrent q) (getMeasure q)"
      by auto
    with least show ?thesis by metis
  qed
  with Cons.IH[OF rest] show ?case by auto
qed

lemma greedyChoice_length:
  "greedyChoice d J I ps \<Longrightarrow> finite J \<Longrightarrow> finite I \<Longrightarrow> length ps = min (card J) (card I)"
proof (induction ps arbitrary: J I)
  case Nil
  then show ?case by auto
next
  case (Cons p ps)
  have rest: "greedyChoice d (J - {getCurrent p}) (I - {getMeasure p}) ps"
    and mem: "getCurrent p \<in> J" "getMeasure p \<in> I"
    using Cons.prems by simp_all
  have "length ps = min (card (J - {getCurrent p})) (card (I - {getMeasure p}))"
    using Cons.IH[OF rest] Cons.prems by simp
  moreover have "card J = Suc (card (J - {getCurrent p}))"
    using mem(1) Cons.prems(2) by (metis card.remove)
  moreover have "card I = Suc (card (I - {getMeasure p}))"
    using mem(2) Cons.prems(3) by (metis card.remove)
  ultimately show ?case by simp
qed


lemma largestPair_mem: "largestPair m ps \<in> set (m # ps)"
  by (induction ps arbitrary: m) auto

lemma largestPair_le: "getDist (largestPair m ps) \<le> getDist m"
proof (induction ps arbitrary: m)
  case Nil
  then show ?case by simp
next
  case (Cons p ps)
  show ?case
  proof (cases "lessPair m p")
    case True
    have "getDist (largestPair p ps) \<le> getDist p" by (rule Cons.IH)
    also have "getDist p \<le> getDist m" using True by (simp add: lessPair_def)
    finally show ?thesis using True by simp
  next
    case False
    then show ?thesis using Cons.IH[of m] by simp
  qed
qed

lemma largestPair_ge: "\<not> lessPair (largestPair m ps) m"
  using largestPair_le[of m ps] by (simp add: lessPair_def not_less)

lemma largestPair_largest: "q \<in> set (m # ps) \<Longrightarrow> \<not> lessPair (largestPair m ps) q"
proof (induction ps arbitrary: m)
  case Nil
  then show ?case by (simp add: lessPair_def)
next
  case (Cons p ps)
  let ?m = "if lessPair m p then p else m"
  have "q = m \<or> q = p \<or> q \<in> set ps" using Cons.prems by auto
  then show ?case
  proof (elim disjE)
    assume "q = m"
    have "\<not> lessPair (largestPair ?m ps) ?m" by (rule largestPair_ge)
    then show ?thesis using \<open>q = m\<close> by (auto simp: lessPair_def split: if_splits)
  next
    assume "q = p"
    have "\<not> lessPair (largestPair ?m ps) ?m" by (rule largestPair_ge)
    then show ?thesis using \<open>q = p\<close> by (auto simp: lessPair_def split: if_splits)
  next
    assume "q \<in> set ps"
    then have "q \<in> set (?m # ps)" by simp
    from Cons.IH[OF this] show ?thesis by simp
  qed
qed

lemma popHeapSimple_contract: "heapContract popHeapSimple"
proof -
  have "mset (popHeapSimple v) = mset v \<and> (\<forall>q \<in> set v. \<not> lessPair (last (popHeapSimple v)) q)"
    for v :: "'a BlobPair list"
  proof (cases v)
    case Nil
    then show ?thesis by (simp add: popHeapSimple_def)
  next
    case (Cons p ps)
    have mem: "largestPair p ps \<in> set v" using largestPair_mem[of p ps] Cons by simp
    have "mset (popHeapSimple v) = mset v"
      using mem Cons by (simp add: popHeapSimple_def Let_def del: remove1.simps)
    moreover have "last (popHeapSimple v) = largestPair p ps"
      using Cons by (simp add: popHeapSimple_def Let_def del: remove1.simps)
    ultimately show ?thesis using largestPair_largest[of _ p ps] Cons by simp
  qed
  then show ?thesis unfolding heapContract_def by blast
qed

lemma gridPair_sel [simp]:
  "getCurrent (gridPair d c) = fst c" "getMeasure (gridPair d c) = snd c"
  "getDist (gridPair d c) = d (fst c) (snd c)"
  by (simp_all add: gridPair_def)

lemma gridPair_eq_iff [simp]: "gridPair d c = gridPair d c' \<longleftrightarrow> c = c'"
  by (auto simp: gridPair_def prod_eq_iff)

lemma closestPairs_grid:
  fixes popHeap :: "('d::linorder) BlobPair list \<Rightarrow> 'd BlobPair list"
  assumes contract: "heapContract popHeap"
  shows "finite J \<Longrightarrow> finite I \<Longrightarrow> distinct v \<Longrightarrow> set v = gridPair d ` (J \<times> I) \<Longrightarrow>
         \<exists>res. closestPairs popHeap v acc = Some (acc @ res) \<and> greedyChoice d J I res"
proof (induction "length v" arbitrary: v J I acc rule: less_induct)
  case less
  show ?case
  proof (cases "v = []")
    case True
    then have "J \<times> I = {}" using less.prems(4) by simp
    then have "greedyChoice d J I []" by auto
    moreover have "closestPairs popHeap v acc = Some (acc @ [])"
      using True by (simp add: closestPairs.simps)
    ultimately show ?thesis by blast
  next
    case False
    define heap where "heap = popHeap v"
    define nearest where "nearest = last heap"
    define rest where "rest = erasePairs nearest (butlast heap)"
    have perm: "mset heap = mset v"
      and top: "\<forall>q \<in> set v. \<not> lessPair nearest q"
      using contract unfolding heapContract_def heap_def nearest_def by blast+
    have heap_ne: "heap \<noteq> []" using perm False by auto
    have set_heap: "set heap = set v" using perm by (rule mset_eq_setD)
    have dist_heap: "distinct heap" using perm less.prems(3) by (metis mset_eq_imp_distinct_iff)
    have heap_split: "heap = butlast heap @ [nearest]"
      using heap_ne by (simp add: nearest_def)
    have near_in: "nearest \<in> set v"
      using heap_ne set_heap nearest_def by (metis last_in_set)
    then obtain j0 i0 where ji: "j0 \<in> J" "i0 \<in> I" "nearest = gridPair d (j0, i0)"
      using less.prems(4) by auto
    have near_sel: "getCurrent nearest = j0" "getMeasure nearest = i0" "getDist nearest = d j0 i0"
      using ji(3) by simp_all
    have least: "\<forall>j \<in> J. \<forall>i \<in> I. getDist nearest \<le> d j i"
    proof (intro ballI)
      fix j i assume "j \<in> J" "i \<in> I"
      then have "gridPair d (j, i) \<in> set v" using less.prems(4) by auto
      with top have "\<not> lessPair nearest (gridPair d (j, i))" by blast
      then show "getDist nearest \<le> d j i" by (simp add: lessPair_def not_less)
    qed
    have dist_bl: "distinct (butlast heap)" using dist_heap by (rule distinct_butlast)
    have "distinct (butlast heap @ [nearest])" using dist_heap heap_split by simp
    then have near_out: "nearest \<notin> set (butlast heap)" by simp
    have "set heap = insert nearest (set (butlast heap))"
      by (subst heap_split) simp
    then have set_bl: "set (butlast heap) = set v - {nearest}"
      using near_out set_heap by auto
    have rest_filter:
      "rest = filter (\<lambda>p. getCurrent p \<noteq> j0 \<and> getMeasure p \<noteq> i0) (butlast heap)"
      unfolding rest_def erasePairs_filter near_sel ..
    have dist_rest: "distinct rest" using dist_bl rest_filter by simp
    have set_rest: "set rest = gridPair d ` ((J - {j0}) \<times> (I - {i0}))"
      unfolding rest_filter using set_bl less.prems(4) ji by (auto simp: image_iff)
    have len_rest: "length rest < length v"
    proof -
      have "length rest \<le> length (butlast heap)" unfolding rest_filter by (rule length_filter_le)
      also have "\<dots> < length heap" using heap_ne by simp
      also have "\<dots> = length v" using perm by (metis size_mset)
      finally show ?thesis .
    qed
    from less.hyps[OF len_rest _ _ dist_rest set_rest, of "acc @ [nearest]"] less.prems(1,2)
    obtain res where res: "closestPairs popHeap rest (acc @ [nearest]) = Some ((acc @ [nearest]) @ res)"
      "greedyChoice d (J - {j0}) (I - {i0}) res"
      by auto
    have "closestPairs popHeap v acc = closestPairs popHeap rest (acc @ [nearest])"
      using False by (subst closestPairs.simps) (simp add: Let_def heap_def nearest_def rest_def)
    then have "closestPairs popHeap v acc = Some (acc @ (nearest # res))" using res(1) by simp
    moreover have "greedyChoice d J I (nearest # res)"
      using ji(1,2) near_sel least res(2) by simp
    ultimately show ?thesis by blast
  qed
qed


lemma searchPairs_grid:
  "searchPairs ops pBlobs pProperties =
     map (\<lambda>(i, j). gridPair (\<lambda>j i. getDistanceFromPrediction ops (core (pBlobs ! j)) (pProperties ! i)) (j, i))
         (List.product [0..<length pProperties] [0..<length pBlobs])"
  by (simp add: searchPairs_def List.product_concat_map map_concat comp_def mkBlobPair_def gridPair_def)

lemma searchPairs_distinct: "distinct (searchPairs ops pBlobs pProperties)"
  unfolding searchPairs_grid
  by (rule distinct_map[THEN iffD2]) (auto simp: distinct_product inj_on_def)

lemma searchPairs_set:
  "set (searchPairs ops pBlobs pProperties) =
     gridPair (\<lambda>j i. getDistanceFromPrediction ops (core (pBlobs ! j)) (pProperties ! i)) `
       ({0..<length pBlobs} \<times> {0..<length pProperties})"
  unfolding searchPairs_grid by (auto simp: image_iff)

text \<open>
  Claim C2. When the heap of the C++ library keeps its contract and there is at least one
  tracked blob, the matching inside \<open>trackBlobs\<close> ends, and the pairs it commits are a
  greedy choice in the words of the specification: each committed pair has the smallest
  distance among the candidates still present, the candidates sharing its blob or its
  measurement are discarded, and nothing is left at the end. The committed distances are
  therefore in non-decreasing order, and there are exactly \<open>min M T\<close> pairs.
\<close>

theorem greedy_matching:
  fixes popHeap :: "('d::linorder) BlobPair list \<Rightarrow> 'd BlobPair list"
  assumes "heapContract popHeap" and "pBlobs \<noteq> []"
  shows "\<exists>lPairs.
           matchBlobs popHeap ops pProperties (map (predictBlob ops) pBlobs) = Some lPairs \<and>
           trackBlobs popHeap ops pProperties pBlobs pLifetime =
             Some (createNew ops pProperties lPairs pLifetime [0..<length pProperties] 0
                     (deleteUntracked lPairs 0
                        (updateTracked ops pProperties lPairs (map (predictBlob ops) pBlobs)))) \<and>
           greedyChoice
             (\<lambda>j i. getDistanceFromPrediction ops (core (map (predictBlob ops) pBlobs ! j)) (pProperties ! i))
             {0..<length pBlobs} {0..<length pProperties} lPairs \<and>
           sorted (map getDist lPairs) \<and>
           length lPairs = min (length pProperties) (length pBlobs)"
proof -
  let ?pred = "map (predictBlob ops) pBlobs"
  let ?d = "\<lambda>j i. getDistanceFromPrediction ops (core (?pred ! j)) (pProperties ! i)"
  have fin: "finite {0..<length ?pred}" "finite {0..<length pProperties}" by simp_all
  have "\<exists>res. closestPairs popHeap (searchPairs ops ?pred pProperties) [] = Some ([] @ res) \<and>
          greedyChoice ?d {0..<length ?pred} {0..<length pProperties} res"
    using closestPairs_grid[OF assms(1) fin searchPairs_distinct searchPairs_set, of ops "[]"] .
  then obtain lPairs where run: "closestPairs popHeap (searchPairs ops ?pred pProperties) [] = Some lPairs"
    and greedy: "greedyChoice ?d {0..<length pBlobs} {0..<length pProperties} lPairs"
    by (elim exE conjE) simp
  have m: "matchBlobs popHeap ops pProperties ?pred = Some lPairs"
    using run assms(2) by (simp add: matchBlobs_def)
  have t: "trackBlobs popHeap ops pProperties pBlobs pLifetime =
             Some (createNew ops pProperties lPairs pLifetime [0..<length pProperties] 0
                     (deleteUntracked lPairs 0 (updateTracked ops pProperties lPairs ?pred)))"
    using m by (simp add: trackBlobs_def)
  have s: "sorted (map getDist lPairs)" using greedy by (rule greedyChoice_sorted)
  have l: "length lPairs = min (length pProperties) (length pBlobs)"
    using greedyChoice_length[OF greedy] by simp
  show ?thesis
    by (rule exI[of _ lPairs]) (intro conjI m t greedy s l)
qed


text \<open>
  The theorem at three blobs at 0, 10 and 4 and the measurements 11 and 1, with the reference
  heap: blob 1 takes measurement 0, then blob 0 takes measurement 1.
\<close>

theorem greedy_matching_witness:
  "heapContract (popHeapSimple :: int BlobPair list \<Rightarrow> int BlobPair list) \<and>
   [lineBlob 1 0 3 3, lineBlob 2 10 3 3, lineBlob 3 4 3 3] \<noteq> [] \<and>
   matchBlobs popHeapSimple lineOps [11, 1]
       (map (predictBlob lineOps) [lineBlob 1 0 3 3, lineBlob 2 10 3 3, lineBlob 3 4 3 3]) =
     Some [\<lparr>getCurrent = 1, getMeasure = 0, getDist = 1\<rparr>, \<lparr>getCurrent = 0, getMeasure = 1, getDist = 1\<rparr>] \<and>
   (\<exists>lPairs.
      matchBlobs popHeapSimple lineOps [11, 1]
          (map (predictBlob lineOps) [lineBlob 1 0 3 3, lineBlob 2 10 3 3, lineBlob 3 4 3 3]) = Some lPairs \<and>
      sorted (map getDist lPairs) \<and> length lPairs = min 2 3)"
proof -
  have c: "heapContract (popHeapSimple :: int BlobPair list \<Rightarrow> int BlobPair list)"
    by (rule popHeapSimple_contract)
  have ne: "[lineBlob 1 0 3 3, lineBlob 2 10 3 3, lineBlob 3 4 3 3] \<noteq> []" by simp
  have v: "matchBlobs popHeapSimple lineOps [11, 1]
       (map (predictBlob lineOps) [lineBlob 1 0 3 3, lineBlob 2 10 3 3, lineBlob 3 4 3 3]) =
     Some [\<lparr>getCurrent = 1, getMeasure = 0, getDist = 1\<rparr>, \<lparr>getCurrent = 0, getMeasure = 1, getDist = 1\<rparr>]"
    by code_simp
  from greedy_matching[OF c ne, of lineOps "[11, 1]" 3]
  obtain lPairs where
    "matchBlobs popHeapSimple lineOps [11, 1]
       (map (predictBlob lineOps) [lineBlob 1 0 3 3, lineBlob 2 10 3 3, lineBlob 3 4 3 3]) = Some lPairs"
    "sorted (map getDist lPairs)"
    "length lPairs = min (length [11, 1::int]) (length [lineBlob 1 0 3 3, lineBlob 2 10 3 3, lineBlob 3 4 3 3])"
    by blast
  then have "\<exists>lPairs.
      matchBlobs popHeapSimple lineOps [11, 1]
          (map (predictBlob lineOps) [lineBlob 1 0 3 3, lineBlob 2 10 3 3, lineBlob 3 4 3 3]) = Some lPairs \<and>
      sorted (map getDist lPairs) \<and> length lPairs = min 2 3"
    by (intro exI[of _ lPairs]) simp
  with c ne v show ?thesis by blast
qed

subsection \<open>The vector of tracked blobs after a call\<close>

lemma trackBlobs_empty: "trackBlobs popHeap ops [] [] pLifetime = Some []"
  by (simp add: trackBlobs_def matchBlobs_def deleteUntracked.simps)

text \<open>
  Claim C1, evaluated where the code departs from it. Two blobs, the first at 0 with lifetime
  0, the second at 10 with lifetime 1, both configured with lifetime 3, and one measurement
  at 10. The matching pairs the second blob (slot 1) with the measurement. The first blob is
  aged and erased, which moves the matched blob to slot 0, while its pair still points to
  slot 1: the matched blob is taken for an unmatched one and aged, and it comes back with
  lifetime 2 instead of the renewed 3. With a configured lifetime of 0 the matched blob is
  erased and the call returns no blob at all. The smallest distance is unique here, so every
  heap that keeps its contract commits the same pair as the reference heap.
\<close>

theorem trackBlobs_matched_blob_aged:
  "matchBlobs popHeapSimple lineOps [10]
       (map (predictBlob lineOps) [lineBlob 1 0 0 3, lineBlob 2 10 1 3]) =
     Some [\<lparr>getCurrent = 1, getMeasure = 0, getDist = 0\<rparr>] \<and>
   trackBlobs popHeapSimple lineOps [10] [lineBlob 1 0 0 3, lineBlob 2 10 1 3] 3 =
     Some [lineBlob 2 10 2 3] \<and>
   trackBlobs popHeapSimple lineOps [10] [lineBlob 1 0 0 0, lineBlob 2 10 0 0] 0 = Some []"
  by code_simp

text \<open>
  Claim C3, evaluated where the code departs from it. Three blobs at 0, 10 and 50 with
  lifetimes 0, 2 and 0, and one measurement at 11, which the matching gives to the second
  blob (slot 1), the only pair of smallest distance. The first blob is erased. The second
  blob, now in slot 0, is aged although it was matched (lifetime 2 instead of 3). The third
  blob, now in slot 1, is taken for the matched one: it was unmatched with lifetime 0 on
  entry, and it is neither aged nor removed.
\<close>

theorem trackBlobs_unmatched_blob_kept:
  "matchBlobs popHeapSimple lineOps [11]
       (map (predictBlob lineOps) [lineBlob 1 0 0 3, lineBlob 2 10 2 3, lineBlob 3 50 0 3]) =
     Some [\<lparr>getCurrent = 1, getMeasure = 0, getDist = 1\<rparr>] \<and>
   trackBlobs popHeapSimple lineOps [11] [lineBlob 1 0 0 3, lineBlob 2 10 2 3, lineBlob 3 50 0 3] 3 =
     Some [lineBlob 2 11 2 3, lineBlob 3 50 0 3]"
  by code_simp

section \<open>Properties of the server\<close>

subsection \<open>Connection\<close>

lemma createFlow_fields:
  "mFlows (createFlow d a srcs st) =
     mFlows st @ [\<lparr>detector = d, sources = srcs, client = a, flowId = mCurrentId st + 1, run = False\<rparr>]"
  "mSources (createFlow d a srcs st) = addSources srcs (mSources st)"
  "mCurrentId (createFlow d a srcs st) = mCurrentId st + 1"
  "effects (createFlow d a srcs st) =
     effects st @ [OscSend a ''/blobserver/connect'' [StringValue ''Connected'', IntValue (mCurrentId st + 1)]]"
  by (simp_all add: createFlow_def getValidId_def lo_send_def)

lemma connectError_fields:
  "connectError a text st = Inr (r, st') \<Longrightarrow>
     r = 1 \<and> mFlows st' = mFlows st \<and> mSources st' = mSources st \<and> mCurrentId st' = mCurrentId st \<and>
     effects st' = effects st @ [OscSend a ''/blobserver/connect'' [StringValue text]]"
  by (auto simp: connectError_def lo_send_def)

text \<open>
  What a connect handler that returns has done: it created a flow, it replied with an error
  text, or it returned without a word because no address could be built.
\<close>

lemma oscHandlerConnect_cases:
  assumes "oscHandlerConnect env message st = Inr (r, st')"
  shows "\<exists>host portNbr. toString (message ! 0) = Some host \<and> toInt (message ! 1) = Some portNbr \<and>
            lo_address_errno env \<lparr>clientHost = host, clientPort = portNbr\<rparr> = 0 \<and>
            ((r = 0 \<and> (\<exists>d srcs. st' = createFlow d \<lparr>clientHost = host, clientPort = portNbr\<rparr> srcs st)) \<or>
             (r = 1 \<and> mFlows st' = mFlows st \<and> mSources st' = mSources st \<and> mCurrentId st' = mCurrentId st \<and>
              (\<exists>text. effects st' = effects st @
                 [OscSend \<lparr>clientHost = host, clientPort = portNbr\<rparr> ''/blobserver/connect'' [StringValue text]])))
         \<or> (r = 1 \<and> st' = st \<and>
             (toInt (message ! 1) = None \<or>
              (\<exists>host portNbr. toString (message ! 0) = Some host \<and> toInt (message ! 1) = Some portNbr \<and>
                 lo_address_errno env \<lparr>clientHost = host, clientPort = portNbr\<rparr> \<noteq> 0)))"
  using assms unfolding oscHandlerConnect_def Let_def
  by (auto split: if_splits option.splits sum.splits dest!: connectError_fields)

lemma connectedIds_append: "connectedIds (es @ fs) = connectedIds es @ connectedIds fs"
  by (induction es rule: connectedIds.induct) auto

lemma connect_step:
  assumes "oscHandlerConnect env message st = Inr (r, st')"
  shows "\<exists>new. effects st' = effects st @ new \<and>
           ((connectedIds new = [] \<and> mCurrentId st' = mCurrentId st) \<or>
            (connectedIds new = [mCurrentId st + 1] \<and> mCurrentId st' = mCurrentId st + 1))"
  using oscHandlerConnect_cases[OF assms]
  by (elim disjE exE conjE) (auto simp: createFlow_fields)

lemma demoConnect_ok:
  "\<exists>srcs. oscHandlerConnect demoEnv demoConnect st =
     Inr (0, createFlow ''LightSpots'' \<lparr>clientHost = ''10.0.0.7'', clientPort = 9000\<rparr> srcs st)"
proof (cases "filter (\<lambda>s. getName s = ''CamSrc'' \<and> getSubsourceNbr s = 0) (mSources st) = []")
  case True
  then have "oscHandlerConnect demoEnv demoConnect st =
     Inr (0, createFlow ''LightSpots'' \<lparr>clientHost = ''10.0.0.7'', clientPort = 9000\<rparr>
               [\<lparr>getName = ''CamSrc'', getSubsourceNbr = 0\<rparr>] st)"
    by (simp add: oscHandlerConnect_def demoEnv_def demoConnect_def portFits_def Let_def)
  then show ?thesis by blast
next
  case False
  then have "1 \<le> length (filter (\<lambda>s. getName s = ''CamSrc'' \<and> getSubsourceNbr s = 0) (mSources st))"
    by (cases "filter (\<lambda>s. getName s = ''CamSrc'' \<and> getSubsourceNbr s = 0) (mSources st)") simp_all
  with False have "oscHandlerConnect demoEnv demoConnect st =
     Inr (0, createFlow ''LightSpots'' \<lparr>clientHost = ''10.0.0.7'', clientPort = 9000\<rparr>
               (filter (\<lambda>s. getName s = ''CamSrc'' \<and> getSubsourceNbr s = 0) (mSources st)) st)"
    by (simp add: oscHandlerConnect_def demoEnv_def demoConnect_def portFits_def Let_def)
  then show ?thesis by blast
qed

lemma upt_shift: "[1..<Suc (Suc n)] = 1 # map Suc [1..<Suc n]"
  by (metis One_nat_def Suc_le_mono map_Suc_upt upt_conv_Cons zero_less_Suc le0 less_Suc_eq_le)

text \<open>
  Claim C5, amended. A connect request that returns a failure leaves the flows, the sources
  and the identifier counter as they were. When the address of the caller could be built (the
  port argument is an integer and liblo accepts the address), exactly one message is sent, to
  the caller, on \<^verbatim>\<open>/blobserver/connect\<close>, carrying one error text. When the port argument is
  not an integer, or liblo rejects the address, nothing is sent.
\<close>

theorem connect_failure_leaves_state:
  assumes "oscHandlerConnect env message st = Inr (r, st')" and "r \<noteq> 0"
  shows "mFlows st' = mFlows st \<and> mSources st' = mSources st \<and> mCurrentId st' = mCurrentId st \<and>
         (\<forall>host portNbr.
            toString (message ! 0) = Some host \<and> toInt (message ! 1) = Some portNbr \<and>
            lo_address_errno env \<lparr>clientHost = host, clientPort = portNbr\<rparr> = 0 \<longrightarrow>
            (\<exists>text. effects st' = effects st @
               [OscSend \<lparr>clientHost = host, clientPort = portNbr\<rparr> ''/blobserver/connect''
                  [StringValue text]])) \<and>
         (toInt (message ! 1) = None \<or>
          (\<exists>host portNbr. toString (message ! 0) = Some host \<and> toInt (message ! 1) = Some portNbr \<and>
             lo_address_errno env \<lparr>clientHost = host, clientPort = portNbr\<rparr> \<noteq> 0) \<longrightarrow>
          effects st' = effects st)"
  using oscHandlerConnect_cases[OF assms(1)] assms(2)
  by (elim disjE exE conjE) auto

text \<open>A request for an unknown detector: one reply, state unchanged.\<close>

theorem connect_failure_leaves_state_witness:
  "oscHandlerConnect demoEnv unknownDetector initialApp =
     Inr (1, initialApp\<lparr>effects := [OscSend \<lparr>clientHost = ''10.0.0.7'', clientPort = 9000\<rparr>
        ''/blobserver/connect'' [StringValue ''Detector type not recognized'']]\<rparr>) \<and>
   (1::int) \<noteq> 0 \<and>
   toString (unknownDetector ! 0) = Some ''10.0.0.7'' \<and> toInt (unknownDetector ! 1) = Some 9000 \<and>
   lo_address_errno demoEnv \<lparr>clientHost = ''10.0.0.7'', clientPort = 9000\<rparr> = 0 \<and>
   mFlows (initialApp\<lparr>effects := [OscSend \<lparr>clientHost = ''10.0.0.7'', clientPort = 9000\<rparr>
        ''/blobserver/connect'' [StringValue ''Detector type not recognized'']]\<rparr>) = mFlows initialApp \<and>
   (\<exists>text. effects (initialApp\<lparr>effects := [OscSend \<lparr>clientHost = ''10.0.0.7'', clientPort = 9000\<rparr>
        ''/blobserver/connect'' [StringValue ''Detector type not recognized'']]\<rparr>) =
      effects initialApp @ [OscSend \<lparr>clientHost = ''10.0.0.7'', clientPort = 9000\<rparr> ''/blobserver/connect''
                  [StringValue text]])"
proof -
  let ?st' = "initialApp\<lparr>effects := [OscSend \<lparr>clientHost = ''10.0.0.7'', clientPort = 9000\<rparr>
        ''/blobserver/connect'' [StringValue ''Detector type not recognized'']]\<rparr>"
  have h: "oscHandlerConnect demoEnv unknownDetector initialApp = Inr (1, ?st')"
    by (simp add: oscHandlerConnect_def demoEnv_def unknownDetector_def portFits_def Let_def
        connectError_def lo_send_def initialApp_def)
  have n: "(1::int) \<noteq> 0" by simp
  have p: "toString (unknownDetector ! 0) = Some ''10.0.0.7''" "toInt (unknownDetector ! 1) = Some 9000"
    "lo_address_errno demoEnv \<lparr>clientHost = ''10.0.0.7'', clientPort = 9000\<rparr> = 0"
    by (simp_all add: unknownDetector_def demoEnv_def)
  from connect_failure_leaves_state[OF h n] p h n show ?thesis by blast
qed

text \<open>
  Claim C5 as stated fails: a request whose port is not an integer returns 1 and sends no
  reply at all.
\<close>

theorem connect_failure_without_reply:
  "oscHandlerConnect demoEnv portAsText initialApp = Inr (1, initialApp) \<and> effects initialApp = []"
  by (simp add: oscHandlerConnect_def portAsText_def initialApp_def)

subsection \<open>Disconnection\<close>

lemma eraseFlows_all:
  "eraseFlows address True detectorId seen flows st =
     st\<lparr>mFlows := seen @ filter (\<lambda>f. lo_address_get_url (client f) \<noteq> lo_address_get_url address) flows,
        effects := effects st @
          map (\<lambda>f. OscSend (client f) ''/blobserver/disconnect'' [StringValue ''Disconnected''])
              (filter (\<lambda>f. lo_address_get_url (client f) = lo_address_get_url address) flows)\<rparr>"
  by (induction flows arbitrary: st seen) (simp_all add: lo_send_def)

lemma eraseFlows_one:
  "eraseFlows address False detectorId seen flows st =
     st\<lparr>mFlows := seen @ filter (\<lambda>f. \<not> (lo_address_get_url (client f) = lo_address_get_url address \<and>
                                          flowId f = detectorId)) flows,
        effects := effects st @
          map (\<lambda>f. OscSend (client f) ''/blobserver/disconnect'' [StringValue ''Disconnected''])
              (filter (\<lambda>f. lo_address_get_url (client f) = lo_address_get_url address \<and>
                            flowId f = detectorId) flows)\<rparr>"
  by (induction flows arbitrary: st seen) (auto simp: lo_send_def)

text \<open>
  Claim C6, amended. A disconnect request carries a host and no port: the caller is taken to
  be the address built from the host of the message and port 9000, and a flow belongs to the
  caller when the URL of its client is the URL of that address. With a flow identifier, the
  flows removed are exactly those of the caller with that identifier, in place, every other
  flow staying where it was; without one, exactly the flows of the caller. Each removed
  flow's client is sent one \<^verbatim>\<open>"Disconnected"\<close> on \<^verbatim>\<open>/blobserver/disconnect\<close>, in the order of
  the flows, and nothing else is sent. A flow whose client was connected on another port is
  not a flow of the caller.
\<close>

theorem disconnect_removes_callers_flows:
  assumes "lo_address_errno env \<lparr>clientHost = ip, clientPort = 9000\<rparr> = 0"
  shows "oscHandlerDisconnect env [StringValue ip, IntValue k] st =
           Inr (0, st\<lparr>mFlows := filter (\<lambda>f. \<not> (lo_address_get_url (client f) =
                                                lo_address_get_url \<lparr>clientHost = ip, clientPort = 9000\<rparr> \<and>
                                              flowId f = k)) (mFlows st),
                       effects := effects st @
                         map (\<lambda>f. OscSend (client f) ''/blobserver/disconnect'' [StringValue ''Disconnected''])
                             (filter (\<lambda>f. lo_address_get_url (client f) =
                                             lo_address_get_url \<lparr>clientHost = ip, clientPort = 9000\<rparr> \<and>
                                           flowId f = k) (mFlows st))\<rparr>) \<and>
         oscHandlerDisconnect env [StringValue ip] st =
           Inr (0, st\<lparr>mFlows := filter (\<lambda>f. lo_address_get_url (client f) \<noteq>
                                              lo_address_get_url \<lparr>clientHost = ip, clientPort = 9000\<rparr>) (mFlows st),
                       effects := effects st @
                         map (\<lambda>f. OscSend (client f) ''/blobserver/disconnect'' [StringValue ''Disconnected''])
                             (filter (\<lambda>f. lo_address_get_url (client f) =
                                             lo_address_get_url \<lparr>clientHost = ip, clientPort = 9000\<rparr>) (mFlows st))\<rparr>)"
proof -
  show ?thesis
    using assms by (simp add: oscHandlerDisconnect_def Let_def eraseFlows_all eraseFlows_one)
qed

text \<open>
  The subscriber at 10.0.0.7 holds the flows 1 and 3: a disconnect naming 3 removes flow 3
  alone, a disconnect without identifier removes both and keeps flow 2 of the other host.
\<close>

theorem disconnect_removes_callers_flows_witness:
  "lo_address_errno demoEnv \<lparr>clientHost = ''10.0.0.7'', clientPort = 9000\<rparr> = 0 \<and>
   oscHandlerDisconnect demoEnv [StringValue ''10.0.0.7'', IntValue 3] threeFlows =
     Inr (0, threeFlows\<lparr>mFlows := [demoFlow ''10.0.0.7'' 9000 1 True, demoFlow ''10.0.0.8'' 9000 2 False],
                        effects := [OscSend \<lparr>clientHost = ''10.0.0.7'', clientPort = 9000\<rparr>
                                      ''/blobserver/disconnect'' [StringValue ''Disconnected'']]\<rparr>) \<and>
   oscHandlerDisconnect demoEnv [StringValue ''10.0.0.7''] threeFlows =
     Inr (0, threeFlows\<lparr>mFlows := [demoFlow ''10.0.0.8'' 9000 2 False],
                        effects := [OscSend \<lparr>clientHost = ''10.0.0.7'', clientPort = 9000\<rparr>
                                      ''/blobserver/disconnect'' [StringValue ''Disconnected''],
                                    OscSend \<lparr>clientHost = ''10.0.0.7'', clientPort = 9000\<rparr>
                                      ''/blobserver/disconnect'' [StringValue ''Disconnected'']]\<rparr>)"
proof -
  have e: "lo_address_errno demoEnv \<lparr>clientHost = ''10.0.0.7'', clientPort = 9000\<rparr> = 0"
    by (simp add: demoEnv_def)
  from disconnect_removes_callers_flows[OF e, of 3 threeFlows] e show ?thesis
    by (simp add: threeFlows_def demoFlow_def lo_address_get_url_def)
qed

text \<open>
  Claim C6 as stated fails for a subscriber that connected with another port than 9000. The
  subscriber at 10.0.0.7 connects with port 9001 and is sent \<^verbatim>\<open>("Connected", 1)\<close> there; its
  disconnect request for flow 1 and its disconnect request without identifier both return 0,
  remove nothing and send nothing: the flow is still in the flow set, and the log holds the
  reply to the connection alone.
\<close>

theorem disconnect_misses_other_port:
  "serveAll demoEnv
     [ConnectReq connectOn9001, DisconnectReq [StringValue ''10.0.0.7'', IntValue 1],
      DisconnectReq [StringValue ''10.0.0.7'']] initialApp =
   Inr \<lparr>mFlows = [demoFlow ''10.0.0.7'' 9001 1 False],
        mSources = [\<lparr>getName = ''CamSrc'', getSubsourceNbr = 0\<rparr>],
        mCurrentId = 1,
        effects = [OscSend \<lparr>clientHost = ''10.0.0.7'', clientPort = 9001\<rparr> ''/blobserver/connect''
                     [StringValue ''Connected'', IntValue 1]]\<rparr>"
  by code_simp

subsection \<open>One cycle of the main loop\<close>

lemma readValues_in_range:
  "(\<And>k. k \<in> set ks \<Longrightarrow> 0 \<le> k \<and> k < int (length message) \<and> k \<le> 2147483647) \<Longrightarrow>
   readValues message ks = Some (map (\<lambda>k. message ! nat k) ks)"
  by (induction ks) simp_all

lemma blobRecord_slice:
  assumes "0 \<le> blobSize" and "2 + (int i + 1) * blobSize \<le> int (length message)"
    and "2 + (int i + 1) * blobSize \<le> 2147483648"
  shows "blobRecord message blobSize (int i) =
           Some (take (nat blobSize) (drop (2 + i * nat blobSize) message))"
proof -
  define s where "s = nat blobSize"
  have bs: "blobSize = int s" using assms(1) by (simp add: s_def)
  have "int (2 + (i + 1) * s) = 2 + (int i + 1) * int s" by (simp add: algebra_simps)
  then have "int (2 + (i + 1) * s) \<le> int (length message)" using assms(2) by (simp only: bs)
  then have len: "2 + (i + 1) * s \<le> length message" by (simp only: of_nat_le_iff)
  have big: "2 + (int i + 1) * int s \<le> 2147483648" using assms(3) by (simp add: bs)
  have inr: "0 \<le> k \<and> k < int (length message) \<and> k \<le> 2147483647"
    if "k \<in> set (map (\<lambda>j. int i * blobSize + 2 + int j) [0..<nat blobSize])" for k
  proof -
    from that[unfolded bs] obtain j where j: "j < s" "k = int i * int s + 2 + int j"
      by auto
    have "int i * int s + 2 + int j < 2 + (int i + 1) * int s" using j(1) by (simp add: algebra_simps)
    moreover have "2 + (int i + 1) * int s \<le> int (length message)" using assms(2) by (simp add: bs)
    ultimately show ?thesis using j(2) big by auto
  qed
  have "blobRecord message blobSize (int i) =
          Some (map (\<lambda>k. message ! nat k) (map (\<lambda>j. int i * blobSize + 2 + int j) [0..<nat blobSize]))"
    unfolding blobRecord_def by (rule readValues_in_range) (use inr in blast)
  also have "map (\<lambda>k. message ! nat k) (map (\<lambda>j. int i * blobSize + 2 + int j) [0..<nat blobSize]) =
             take s (drop (2 + i * s) message)"
  proof (rule nth_equalityI)
    show "length (map (\<lambda>k. message ! nat k) (map (\<lambda>j. int i * blobSize + 2 + int j) [0..<nat blobSize])) =
          length (take s (drop (2 + i * s) message))"
      using len by (simp add: s_def[symmetric])
  next
    fix j assume "j < length (map (\<lambda>k. message ! nat k) (map (\<lambda>j. int i * blobSize + 2 + int j) [0..<nat blobSize]))"
    then have j: "j < s" by (simp add: s_def)
    have "nat (int i * int s + 2 + int j) = 2 + i * s + j"
      by (simp add: nat_add_distrib nat_mult_distrib)
    moreover have "2 + i * s + j < length message" using j len by simp
    ultimately show "map (\<lambda>k. message ! nat k) (map (\<lambda>j. int i * blobSize + 2 + int j) [0..<nat blobSize]) ! j =
          take s (drop (2 + i * s) message) ! j"
      using j by (simp add: bs s_def[symmetric])
  qed
  finally show ?thesis by (simp add: s_def)
qed

lemma sendBlobs_sends:
  "(\<And>i. i \<in> set is \<Longrightarrow> blobRecord message blobSize (int i) = Some (rec i)) \<Longrightarrow>
   sendBlobs env flow message blobSize is st =
     Inr (st\<lparr>effects := effects st @
                map (\<lambda>i. OscSend (client flow) (getOscPath env (detector flow)) (rec i)) is\<rparr>)"
  by (induction "is" arbitrary: st) (simp_all add: lo_send_def)

text \<open>
  Claim C8. For a running flow whose detector reports \<open>n\<close> blobs of \<open>s\<close> values each (the
  first two values of the report, both non-negative, followed by at least \<open>n * s\<close> values,
  the whole report within the range of an \<^verbatim>\<open>int\<close> index), the cycle calls the detector,
  writes the image, sends \<^verbatim>\<open>/blobserver/startFrame\<close>, then exactly \<open>n\<close> messages on the
  OSC path of the detector, the \<open>i\<close>-th carrying the \<open>s\<close> values at positions \<open>2 + i * s\<close>
  to \<open>2 + i * s + s - 1\<close> of the report, then \<^verbatim>\<open>/blobserver/endFrame\<close>; for \<open>n = 0\<close> only the
  two markers are sent.
\<close>

theorem frame_repacking:
  assumes "run flow"
    and "detect env (flowId flow) frameNbr = report"
    and "report ! 0 = IntValue n" and "report ! 1 = IntValue s"
    and "0 \<le> sint n" and "0 \<le> sint s"
    and "2 + sint n * sint s \<le> int (length report)"
    and "length report \<le> 2 ^ 31"
  shows "runFlow env frameNbr flow st =
           Inr (st\<lparr>effects := effects st @
                  [Detect (flowId flow), ShmSetImage (flowId flow),
                   OscSend (client flow) ''/blobserver/startFrame'' [IntValue frameNbr, IntValue (flowId flow)]] @
                  map (\<lambda>i. OscSend (client flow) (getOscPath env (detector flow))
                              (take (nat (sint s)) (drop (2 + i * nat (sint s)) report)))
                      [0..<nat (sint n)] @
                  [OscSend (client flow) ''/blobserver/endFrame'' [IntValue frameNbr, IntValue (flowId flow)]]\<rparr>)"
proof -
  have len2: "2 \<le> length report"
  proof -
    have "0 \<le> sint n * sint s" using assms(5,6) by simp
    then show ?thesis using assms(7) by linarith
  qed
  have recs: "blobRecord report (sint s) (int i) =
                Some (take (nat (sint s)) (drop (2 + i * nat (sint s)) report))"
    if "i \<in> set [0..<nat (sint n)]" for i
  proof (rule blobRecord_slice[OF assms(6)])
    have "int i + 1 \<le> sint n" using that by auto
    then have "(int i + 1) * sint s \<le> sint n * sint s" using assms(6) by (rule mult_right_mono)
    then show "2 + (int i + 1) * sint s \<le> int (length report)" using assms(7) by linarith
    then show "2 + (int i + 1) * sint s \<le> 2147483648" using assms(8) by simp
  qed
  define st2 where "st2 = st\<lparr>effects := effects st @
      [Detect (flowId flow), ShmSetImage (flowId flow),
       OscSend (client flow) ''/blobserver/startFrame'' [IntValue frameNbr, IntValue (flowId flow)]]\<rparr>"
  have sent: "sendBlobs env flow report (sint s) [0..<nat (sint n)] st2 =
     Inr (st2\<lparr>effects := effects st2 @
            map (\<lambda>i. OscSend (client flow) (getOscPath env (detector flow))
                        (take (nat (sint s)) (drop (2 + i * nat (sint s)) report)))
                [0..<nat (sint n)]\<rparr>)"
    by (rule sendBlobs_sends) (rule recs)
  have "runFlow env frameNbr flow st =
          (case sendBlobs env flow report (sint s) [0..<nat (sint n)] st2 of
             Inl fault \<Rightarrow> Inl fault
           | Inr st3 \<Rightarrow> Inr (lo_send (client flow) ''/blobserver/endFrame''
                                [IntValue frameNbr, IntValue (flowId flow)] st3))"
  proof -
    have "report \<noteq> []" using len2 by auto
    then show ?thesis
      using assms(1-4) len2 by (simp add: runFlow_def Let_def lo_send_def st2_def)
  qed
  also have "\<dots> = Inr (lo_send (client flow) ''/blobserver/endFrame''
                        [IntValue frameNbr, IntValue (flowId flow)]
                        (st2\<lparr>effects := effects st2 @
                           map (\<lambda>i. OscSend (client flow) (getOscPath env (detector flow))
                                       (take (nat (sint s)) (drop (2 + i * nat (sint s)) report)))
                               [0..<nat (sint n)]\<rparr>))"
    by (simp only: sent sum.case)
  finally show ?thesis by (simp add: lo_send_def st2_def)
qed

text \<open>A report of two blobs of three values: two messages between the two markers.\<close>

theorem frame_repacking_witness:
  "run (demoFlow ''10.0.0.7'' 9000 1 True) \<and>
   detect demoEnv (flowId (demoFlow ''10.0.0.7'' 9000 1 True)) 7 =
     [IntValue 2, IntValue 3, IntValue 10, IntValue 11, IntValue 12, IntValue 20, IntValue 21, IntValue 22] \<and>
   (0::int) \<le> sint (2 :: 32 word) \<and> 0 \<le> sint (3 :: 32 word) \<and>
   2 + sint (2 :: 32 word) * sint (3 :: 32 word) \<le>
     int (length [IntValue 2, IntValue 3, IntValue 10, IntValue 11, IntValue 12, IntValue 20, IntValue 21, IntValue 22]) \<and>
   runFlow demoEnv 7 (demoFlow ''10.0.0.7'' 9000 1 True) initialApp =
     Inr (initialApp\<lparr>effects :=
       [Detect 1, ShmSetImage 1,
        OscSend \<lparr>clientHost = ''10.0.0.7'', clientPort = 9000\<rparr> ''/blobserver/startFrame'' [IntValue 7, IntValue 1],
        OscSend \<lparr>clientHost = ''10.0.0.7'', clientPort = 9000\<rparr> ''/blobserver/lightSpots''
          [IntValue 10, IntValue 11, IntValue 12],
        OscSend \<lparr>clientHost = ''10.0.0.7'', clientPort = 9000\<rparr> ''/blobserver/lightSpots''
          [IntValue 20, IntValue 21, IntValue 22],
        OscSend \<lparr>clientHost = ''10.0.0.7'', clientPort = 9000\<rparr> ''/blobserver/endFrame'' [IntValue 7, IntValue 1]]\<rparr>)"
proof -
  let ?flow = "demoFlow ''10.0.0.7'' 9000 1 True"
  let ?report = "[IntValue 2, IntValue 3, IntValue 10, IntValue 11, IntValue 12, IntValue 20, IntValue 21, IntValue 22]"
  have a1: "run ?flow" by (simp add: demoFlow_def)
  have a2: "detect demoEnv (flowId ?flow) 7 = ?report" by (simp add: demoEnv_def)
  have a3: "?report ! 0 = IntValue 2" "?report ! 1 = IntValue 3" by simp_all
  have a5: "(0::int) \<le> sint (2 :: 32 word)" "0 \<le> sint (3 :: 32 word)" by simp_all
  have a7: "2 + sint (2 :: 32 word) * sint (3 :: 32 word) \<le> int (length ?report)" by simp
  have a8: "length ?report \<le> 2 ^ 31" by simp
  have "runFlow demoEnv 7 ?flow initialApp = Inr (initialApp\<lparr>effects :=
       [Detect 1, ShmSetImage 1,
        OscSend \<lparr>clientHost = ''10.0.0.7'', clientPort = 9000\<rparr> ''/blobserver/startFrame'' [IntValue 7, IntValue 1],
        OscSend \<lparr>clientHost = ''10.0.0.7'', clientPort = 9000\<rparr> ''/blobserver/lightSpots''
          [IntValue 10, IntValue 11, IntValue 12],
        OscSend \<lparr>clientHost = ''10.0.0.7'', clientPort = 9000\<rparr> ''/blobserver/lightSpots''
          [IntValue 20, IntValue 21, IntValue 22],
        OscSend \<lparr>clientHost = ''10.0.0.7'', clientPort = 9000\<rparr> ''/blobserver/endFrame'' [IntValue 7, IntValue 1]]\<rparr>)"
    using frame_repacking[OF a1 a2 a3 a5 a7 a8, of initialApp]
    by (simp add: demoFlow_def demoEnv_def initialApp_def upt_rec[of 0] numeral_2_eq_2 numeral_3_eq_3)
  with a1 a2 a5 a7 show ?thesis by blast
qed

subsection \<open>Start and stop\<close>











text \<open>The identifier counter moves by one at a successful connect and at nothing else.\<close>

lemma sendBlobs_counter:
  "sendBlobs env flow message blobSize is st = Inr st' \<Longrightarrow> mCurrentId st' = mCurrentId st"
  by (induction "is" arbitrary: st) (auto simp: lo_send_def split: option.splits)

lemma runFlow_counter:
  "runFlow env frameNbr flow st = Inr st' \<Longrightarrow> mCurrentId st' = mCurrentId st"
  by (auto simp: runFlow_def Let_def lo_send_def split: if_splits option.splits sum.splits
      dest!: sendBlobs_counter)

lemma loopFlows_counter:
  "loopFlows env frameNbr flows st = Inr st' \<Longrightarrow> mCurrentId st' = mCurrentId st"
  by (induction flows arbitrary: st) (auto split: sum.splits dest!: runFlow_counter)

lemma setParameterFlows_counter:
  "setParameterFlows message ident seen flows result st = Inr (r, st') \<Longrightarrow>
   mCurrentId st' = mCurrentId st"
  by (induction message ident seen flows result st rule: setParameterFlows.induct)
     (auto simp: lo_send_def split: if_splits option.splits)

lemma serve_counter:
  assumes "serve env r st = Inr st'"
  shows "mCurrentId st' = mCurrentId st \<or> (isConnectReq r \<and> mCurrentId st' = mCurrentId st + 1)"
proof (cases r)
  case (ConnectReq message)
  with assms obtain ret where h: "oscHandlerConnect env message st = Inr (ret, st')"
    by (cases "oscHandlerConnect env message st") auto
  from connect_step[OF h] show ?thesis using ConnectReq by auto
next
  case (DisconnectReq message)
  with assms show ?thesis
    by (cases "oscHandlerDisconnect env message st")
       (auto simp: oscHandlerDisconnect_def Let_def eraseFlows_all eraseFlows_one lo_send_def
             split: if_splits option.splits)
next
  case (SetParameterReq message)
  with assms show ?thesis
    by (cases "oscHandlerSetParameter env message st")
       (auto simp: oscHandlerSetParameter_def Let_def lo_send_def
             split: if_splits option.splits dest!: setParameterFlows_counter)
next
  case (MainLoopCycle frameNbr)
  with assms show ?thesis by (auto simp: loopCycle_def dest!: loopFlows_counter)
qed





















subsection \<open>The identifiers of a run\<close>

lemma serve_new_effects:
  assumes "serve env (ConnectReq message) st = Inr st'"
  shows "(connectedIds (drop (length (effects st)) (effects st')) = [] \<and> mCurrentId st' = mCurrentId st) \<or>
         (connectedIds (drop (length (effects st)) (effects st')) = [mCurrentId st + 1] \<and>
          mCurrentId st' = mCurrentId st + 1)"
proof -
  from assms obtain ret where h: "oscHandlerConnect env message st = Inr (ret, st')"
    by (cases "oscHandlerConnect env message st") auto
  from connect_step[OF h] show ?thesis by auto
qed

lemma sint_succ:
  fixes w :: "32 word"
  assumes "sint w < 2 ^ 31 - 1"
  shows "sint (w + 1) = sint w + 1"
proof -
  have lo: "- (2 ^ 31) \<le> sint w" using sint_ge[of w] by simp
  have "sint (w + 1) = signed_take_bit 31 (sint w + 1)"
    by (simp add: sint_word_ariths)
  also have "\<dots> = sint w + 1"
    using lo assms by (intro signed_take_bit_int_eq_self) simp_all
  finally show ?thesis .
qed

lemma returned_ids_increase:
  "returnedIds env rs st = Some ids \<Longrightarrow>
   sint (mCurrentId st) + int (length ids) < 2 ^ 31 \<Longrightarrow>
   sorted_wrt (<) ids \<and> (\<forall>i \<in> set ids. sint (mCurrentId st) < i)"
proof (induction rs arbitrary: st ids)
  case Nil
  then show ?case by simp
next
  case (Cons r rs)
  from Cons.prems(1) obtain st1 ids1 where one: "serve env r st = Inr st1"
    and rest: "returnedIds env rs st1 = Some ids1"
    and ids: "ids = (if isConnectReq r
                     then map sint (connectedIds (drop (length (effects st)) (effects st1)))
                     else []) @ ids1"
    by (auto split: sum.splits option.splits)
  show ?case
  proof (cases "mCurrentId st1 = mCurrentId st")
    case True
    have none: "(if isConnectReq r
                 then map sint (connectedIds (drop (length (effects st)) (effects st1)))
                 else []) = []"
    proof (cases r)
      case (ConnectReq message)
      have "mCurrentId st + 1 \<noteq> mCurrentId st" by simp
      with serve_new_effects[OF one[unfolded ConnectReq]] True show ?thesis by auto
    qed simp_all
    have same: "ids = ids1" using ids none by simp
    have "sint (mCurrentId st1) + int (length ids1) < 2 ^ 31"
      using Cons.prems(2) True same by simp
    from Cons.IH[OF rest this] show ?thesis using same True by simp
  next
    case False
    with serve_counter[OF one] have c: "isConnectReq r" "mCurrentId st1 = mCurrentId st + 1" by auto
    then obtain message where r: "r = ConnectReq message" by (cases r) auto
    from serve_new_effects[OF one[unfolded r]] c(2)
    have new: "connectedIds (drop (length (effects st)) (effects st1)) = [mCurrentId st + 1]" by auto
    have cons: "ids = sint (mCurrentId st + 1) # ids1" using ids c(1) new by simp
    have b: "sint (mCurrentId st) + 1 + int (length ids1) < 2 ^ 31"
      using Cons.prems(2) cons by simp
    then have "sint (mCurrentId st) < 2 ^ 31 - 1" by simp
    then have s1: "sint (mCurrentId st + 1) = sint (mCurrentId st) + 1" by (rule sint_succ)
    have "sint (mCurrentId st1) + int (length ids1) < 2 ^ 31"
      using b s1 c(2) by simp
    from Cons.IH[OF rest this] have ih: "sorted_wrt (<) ids1"
      "\<forall>i \<in> set ids1. sint (mCurrentId st + 1) < i" using c(2) by simp_all
    show ?thesis using cons ih s1 by auto
  qed
qed

text \<open>
  Claim C4, amended. The identifiers that the successful connect requests of a run return to
  their callers, whatever disconnect and \<^verbatim>\<open>setParameter\<close> requests, failing connect requests
  and cycles of the main loop come in between, are strictly increasing, and larger than the
  counter the run started from, as long as the identifier stays in the range of the \<^verbatim>\<open>int\<close>
  that the reply carries: the counter, read as that \<^verbatim>\<open>int\<close>, plus the number of identifiers
  returned stays below \<open>2 ^ 31\<close>. The identifiers are compared as the \<^verbatim>\<open>int\<close> values that the
  replies \<^verbatim>\<open>("Connected", id)\<close> hold.
\<close>

theorem flow_ids_increase:
  assumes "returnedIds env rs st = Some ids"
    and "sint (mCurrentId st) + int (length ids) < 2 ^ 31"
  shows "sorted_wrt (<) ids \<and> (\<forall>i \<in> set ids. sint (mCurrentId st) < i)"
  using returned_ids_increase[OF assms] .

text \<open>
  A connection, a cycle, the disconnection of the flow, a failing connect request and two more
  connections return the identifiers 1, 2 and 3 to the fresh server's callers.
\<close>

theorem flow_ids_increase_witness:
  "returnedIds demoEnv
     [ConnectReq demoConnect, MainLoopCycle 0, DisconnectReq disconnectSeven,
      ConnectReq unknownDetector, ConnectReq demoConnect, ConnectReq demoConnect] initialApp =
     Some [1, 2, 3] \<and>
   sint (mCurrentId initialApp) + int (length [1, 2, 3 :: int]) < 2 ^ 31 \<and>
   sorted_wrt (<) [1, 2, 3 :: int] \<and>
   sint (mCurrentId initialApp) < 1 \<and> sint (mCurrentId initialApp) < 2 \<and> sint (mCurrentId initialApp) < 3"
proof -
  have a: "returnedIds demoEnv
     [ConnectReq demoConnect, MainLoopCycle 0, DisconnectReq disconnectSeven,
      ConnectReq unknownDetector, ConnectReq demoConnect, ConnectReq demoConnect] initialApp =
     Some [1, 2, 3]"
    by code_simp
  have b: "sint (mCurrentId initialApp) + int (length [1, 2, 3 :: int]) < 2 ^ 31"
    by (simp add: initialApp_def)
  from flow_ids_increase[OF a b] a b show ?thesis by simp
qed

lemma demoConnect_returned:
  "returnedIds demoEnv (replicate n (ConnectReq demoConnect)) st =
     Some (map (\<lambda>j. sint (mCurrentId st + of_nat j)) [1..<Suc n])"
proof (induction n arbitrary: st)
  case 0
  then show ?case by simp
next
  case (Suc n)
  obtain srcs where h: "oscHandlerConnect demoEnv demoConnect st =
      Inr (0, createFlow ''LightSpots'' \<lparr>clientHost = ''10.0.0.7'', clientPort = 9000\<rparr> srcs st)"
    using demoConnect_ok by blast
  define st1 where "st1 = createFlow ''LightSpots'' \<lparr>clientHost = ''10.0.0.7'', clientPort = 9000\<rparr> srcs st"
  have one: "serve demoEnv (ConnectReq demoConnect) st = Inr st1" using h by (simp add: st1_def)
  have c1: "mCurrentId st1 = mCurrentId st + 1"
    and new: "connectedIds (drop (length (effects st)) (effects st1)) = [mCurrentId st + 1]"
    by (simp_all add: st1_def createFlow_fields)
  have "returnedIds demoEnv (replicate (Suc n) (ConnectReq demoConnect)) st =
          Some (sint (mCurrentId st + 1) # map (\<lambda>j. sint (mCurrentId st1 + of_nat j)) [1..<Suc n])"
    using one new Suc[of st1] by simp
  also have "sint (mCurrentId st + 1) # map (\<lambda>j. sint (mCurrentId st1 + of_nat j)) [1..<Suc n] =
             map (\<lambda>j. sint (mCurrentId st + of_nat j)) [1..<Suc (Suc n)]"
    unfolding upt_shift by (simp add: c1 comp_def add.assoc)
  finally show ?case .
qed

lemma wrapped_ids_unsorted:
  assumes "1 < n" and "sint (of_nat n :: 32 word) < 0"
  shows "\<not> sorted_wrt (<) (map (\<lambda>j. sint ((0 :: 32 word) + of_nat j)) [1..<Suc n])"
proof
  define xs where "xs = map (\<lambda>j. sint ((0 :: 32 word) + of_nat j)) [1..<Suc n]"
  assume "sorted_wrt (<) (map (\<lambda>j. sint ((0 :: 32 word) + of_nat j)) [1..<Suc n])"
  then have s: "sorted_wrt (<) xs" by (simp only: xs_def)
  have len: "length xs = n" by (simp add: xs_def del: upt_Suc)
  have first: "xs ! 0 = 1"
    using assms(1) by (simp add: xs_def del: upt_Suc)
  have final: "xs ! (n - 1) = sint (of_nat n :: 32 word)"
    using assms(1) by (simp add: xs_def del: upt_Suc)
  have "0 < n - 1" "n - 1 < length xs" using assms(1) len by simp_all
  from sorted_wrt_nth_less[OF s this] show False using first final assms(2) by simp
qed

text \<open>
  Claim C4 as stated fails once the identifier leaves the range of \<^verbatim>\<open>int\<close>: \<open>2 ^ 31\<close>
  successful connections to the fresh server return 1, 2, ..., \<open>2 ^ 31 - 1\<close> and then
  \<open>- (2 ^ 31)\<close>.
\<close>

theorem flow_ids_wrap:
  "map_option (sorted_wrt (<))
     (returnedIds demoEnv (replicate (2 ^ 31) (ConnectReq demoConnect)) initialApp) = Some False"
proof -
  have z: "sint (of_nat (2 ^ 31) :: 32 word) < 0" by simp
  have o: "(1::nat) < 2 ^ 31" by simp
  have "mCurrentId initialApp = 0" by (simp add: initialApp_def)
  then have "returnedIds demoEnv (replicate (2 ^ 31) (ConnectReq demoConnect)) initialApp =
     Some (map (\<lambda>j. sint ((0 :: 32 word) + of_nat j)) [1..<Suc (2 ^ 31)])"
    using demoConnect_returned[of "2 ^ 31" initialApp] by (simp only:)
  then show ?thesis using wrapped_ids_unsorted[OF o z] by (simp only: option.map simp_thms)
qed

section \<open>Properties of the images\<close>

subsection \<open>Parallel\_Mask\<close>

text \<open>
  Claim C9, evaluated where the code departs from it. The buffer is the left column of a
  2 by 2 image (two rows, one column, step 2) with the pixels 5, 6, 7, 8; the mask has two
  rows and one column, both pixels 0. Both pixels of the buffer, 5 and 7, should become 0.
  After the first row the code advances the buffer pointer by the number of columns instead
  of the step: it clears 5, then clears the 6 next to it, which is not a pixel of the buffer,
  and leaves the 7 of the second row. Last, a continuous 2 by 2 buffer with a mask of two rows
  and one column: the loop over \<open>x\<close> runs over the columns of the buffer and reads the mask
  beyond its end.
\<close>

theorem Parallel_Mask_ignores_step:
  "Parallel_Mask \<lparr>block = 0, offset = 0, rows = 2, cols = 1, step = 2\<rparr>
                 \<lparr>block = 1, offset = 0, rows = 2, cols = 1, step = 1\<rparr> (0, 2) [[5, 6, 7, 8], [0, 0]] =
     Some [[0, 0, 7, 8], [0, 0]] \<and>
   pixel [[5, 6, 7, 8], [0, 0]] \<lparr>block = 1, offset = 0, rows = 2, cols = 1, step = 1\<rparr> 1 0 = Some 0 \<and>
   pixel [[0, 0, 7, 8], [0, 0]] \<lparr>block = 0, offset = 0, rows = 2, cols = 1, step = 2\<rparr> 1 0 = Some 7 \<and>
   Parallel_Mask \<lparr>block = 0, offset = 0, rows = 2, cols = 2, step = 2\<rparr>
                 \<lparr>block = 1, offset = 0, rows = 2, cols = 1, step = 1\<rparr> (0, 2) [[5, 6, 7, 8], [1, 0]] = None"
  by code_simp

text \<open>
  The loops on matrices that fit their blocks and do not share one: the inner loop clears the
  positions \<open>bufferPtr + x\<close> whose mask position \<open>maskPtr + x\<close> holds 0, and the outer loop
  does so for every row, the pointers advancing by the numbers of columns.
\<close>

lemma maskRow_spec:
  assumes "block buf \<noteq> block msk" "block buf < length s" "block msk < length s"
    and "\<forall>x \<in> set xs. maskPtr + x < length (s ! block msk) \<and> bufferPtr + x < length (s ! block buf)"
  shows "\<exists>s'. maskRow buf msk bufferPtr maskPtr xs s = Some s' \<and> length s' = length s \<and>
           (\<forall>a. a \<noteq> block buf \<longrightarrow> s' ! a = s ! a) \<and>
           length (s' ! block buf) = length (s ! block buf) \<and>
           (\<forall>j < length (s ! block buf). s' ! block buf ! j =
              (if \<exists>x \<in> set xs. j = bufferPtr + x \<and> s ! block msk ! (maskPtr + x) = 0
               then 0 else s ! block buf ! j))"
  using assms
proof (induction xs arbitrary: s)
  case Nil
  then show ?case by simp
next
  case (Cons x xs)
  have rd: "readPtr s (block msk) (maskPtr + x * sizeofUchar) = Some (s ! block msk ! (maskPtr + x))"
    using Cons.prems by (simp add: readPtr_def sizeofUchar_def)
  show ?case
  proof (cases "s ! block msk ! (maskPtr + x) = 0")
    case False
    from Cons.IH[of s] Cons.prems obtain s' where
      r: "maskRow buf msk bufferPtr maskPtr xs s = Some s'" "length s' = length s"
      "\<forall>a. a \<noteq> block buf \<longrightarrow> s' ! a = s ! a"
      "length (s' ! block buf) = length (s ! block buf)"
      "\<forall>j < length (s ! block buf). s' ! block buf ! j =
              (if \<exists>x \<in> set xs. j = bufferPtr + x \<and> s ! block msk ! (maskPtr + x) = 0
               then 0 else s ! block buf ! j)"
      by auto
    have "maskRow buf msk bufferPtr maskPtr (x # xs) s = Some s'"
      using rd False r(1) by simp
    moreover have "\<forall>j < length (s ! block buf). s' ! block buf ! j =
              (if \<exists>y \<in> set (x # xs). j = bufferPtr + y \<and> s ! block msk ! (maskPtr + y) = 0
               then 0 else s ! block buf ! j)"
      using r(5) False by auto
    ultimately show ?thesis using r(2,3,4) by blast
  next
    case True
    define s1 where "s1 = s[block buf := (s ! block buf)[bufferPtr + x := 0]]"
    have wr: "writePtr s (block buf) (bufferPtr + x * sizeofPixType) 0 = Some s1"
      using Cons.prems by (simp add: writePtr_def sizeofPixType_def s1_def)
    have s1: "length s1 = length s" "s1 ! block msk = s ! block msk"
      "s1 ! block buf = (s ! block buf)[bufferPtr + x := 0]"
      "\<forall>a. a \<noteq> block buf \<longrightarrow> s1 ! a = s ! a"
      using Cons.prems(1,2) by (simp_all add: s1_def)
    have pre: "block buf < length s1" "block msk < length s1"
      "\<forall>x \<in> set xs. maskPtr + x < length (s1 ! block msk) \<and> bufferPtr + x < length (s1 ! block buf)"
      using Cons.prems s1 by simp_all
    from Cons.IH[OF Cons.prems(1) pre] obtain s' where
      r: "maskRow buf msk bufferPtr maskPtr xs s1 = Some s'" "length s' = length s1"
      "\<forall>a. a \<noteq> block buf \<longrightarrow> s' ! a = s1 ! a"
      "length (s' ! block buf) = length (s1 ! block buf)"
      "\<forall>j < length (s1 ! block buf). s' ! block buf ! j =
              (if \<exists>x \<in> set xs. j = bufferPtr + x \<and> s1 ! block msk ! (maskPtr + x) = 0
               then 0 else s1 ! block buf ! j)"
      by blast
    have "maskRow buf msk bufferPtr maskPtr (x # xs) s = Some s'"
      using rd True wr r(1) by simp
    moreover have "\<forall>j < length (s ! block buf). s' ! block buf ! j =
              (if \<exists>y \<in> set (x # xs). j = bufferPtr + y \<and> s ! block msk ! (maskPtr + y) = 0
               then 0 else s ! block buf ! j)"
    proof (intro allI impI)
      fix j assume j: "j < length (s ! block buf)"
      then have "j < length (s1 ! block buf)" by (simp add: s1(3))
      from r(5)[rule_format, OF this]
      have "s' ! block buf ! j =
              (if \<exists>x \<in> set xs. j = bufferPtr + x \<and> s ! block msk ! (maskPtr + x) = 0
               then 0 else (s ! block buf)[bufferPtr + x := 0] ! j)"
        by (simp only: s1(2,3))
      then show "s' ! block buf ! j =
              (if \<exists>y \<in> set (x # xs). j = bufferPtr + y \<and> s ! block msk ! (maskPtr + y) = 0
               then 0 else s ! block buf ! j)"
        using True j by (auto simp: nth_list_update)
    qed
    ultimately show ?thesis using r(2,3,4) s1 by auto
  qed
qed

lemma maskRows_spec:
  assumes "block buf \<noteq> block msk" "block buf < length s" "block msk < length s"
    and "\<forall>k < length ys. \<forall>x < cols buf.
           maskPtr + k * cols msk + x < length (s ! block msk) \<and>
           bufferPtr + k * cols buf + x < length (s ! block buf)"
  shows "\<exists>s'. maskRows buf msk bufferPtr maskPtr ys s = Some s' \<and> length s' = length s \<and>
           (\<forall>a. a \<noteq> block buf \<longrightarrow> s' ! a = s ! a) \<and>
           length (s' ! block buf) = length (s ! block buf) \<and>
           (\<forall>j < length (s ! block buf). s' ! block buf ! j =
              (if \<exists>k < length ys. \<exists>x < cols buf.
                    j = bufferPtr + k * cols buf + x \<and> s ! block msk ! (maskPtr + k * cols msk + x) = 0
               then 0 else s ! block buf ! j))"
  using assms
proof (induction ys arbitrary: s bufferPtr maskPtr)
  case Nil
  then show ?case by simp
next
  case (Cons y ys)
  have row: "\<forall>x \<in> set [0..<cols buf]. maskPtr + x < length (s ! block msk) \<and> bufferPtr + x < length (s ! block buf)"
    using Cons.prems(4)[rule_format, of 0] by simp
  from maskRow_spec[OF Cons.prems(1,2,3) row] obtain s1 where
    r1: "maskRow buf msk bufferPtr maskPtr [0..<cols buf] s = Some s1" "length s1 = length s"
    "\<forall>a. a \<noteq> block buf \<longrightarrow> s1 ! a = s ! a"
    "length (s1 ! block buf) = length (s ! block buf)"
    "\<forall>j < length (s ! block buf). s1 ! block buf ! j =
        (if \<exists>x \<in> set [0..<cols buf]. j = bufferPtr + x \<and> s ! block msk ! (maskPtr + x) = 0
         then 0 else s ! block buf ! j)"
    by blast
  have m1: "s1 ! block msk = s ! block msk" using r1(3) Cons.prems(1) by auto
  have pre: "block buf < length s1" "block msk < length s1"
    using Cons.prems(2,3) r1(2) by simp_all
  have pre4: "\<forall>k < length ys. \<forall>x < cols buf.
           (maskPtr + cols msk * sizeofUchar) + k * cols msk + x < length (s1 ! block msk) \<and>
           (bufferPtr + cols buf * sizeofPixType) + k * cols buf + x < length (s1 ! block buf)"
  proof (intro allI impI)
    fix k x assume "k < length ys" "x < cols buf"
    then have "maskPtr + Suc k * cols msk + x < length (s ! block msk) \<and>
               bufferPtr + Suc k * cols buf + x < length (s ! block buf)"
      using Cons.prems(4)[rule_format, of "Suc k" x] by simp
    then show "(maskPtr + cols msk * sizeofUchar) + k * cols msk + x < length (s1 ! block msk) \<and>
           (bufferPtr + cols buf * sizeofPixType) + k * cols buf + x < length (s1 ! block buf)"
      by (simp add: m1 r1(4) sizeofUchar_def sizeofPixType_def algebra_simps)
  qed
  from Cons.IH[OF Cons.prems(1) pre pre4] obtain s' where
    r2: "maskRows buf msk (bufferPtr + cols buf * sizeofPixType) (maskPtr + cols msk * sizeofUchar) ys s1 = Some s'"
    "length s' = length s1" "\<forall>a. a \<noteq> block buf \<longrightarrow> s' ! a = s1 ! a"
    "length (s' ! block buf) = length (s1 ! block buf)"
    "\<forall>j < length (s1 ! block buf). s' ! block buf ! j =
        (if \<exists>k < length ys. \<exists>x < cols buf.
              j = (bufferPtr + cols buf * sizeofPixType) + k * cols buf + x \<and>
              s1 ! block msk ! ((maskPtr + cols msk * sizeofUchar) + k * cols msk + x) = 0
         then 0 else s1 ! block buf ! j)"
    by blast
  have run: "maskRows buf msk bufferPtr maskPtr (y # ys) s = Some s'"
    using r1(1) r2(1) by simp
  have fin: "\<forall>j < length (s ! block buf). s' ! block buf ! j =
              (if \<exists>k < length (y # ys). \<exists>x < cols buf.
                    j = bufferPtr + k * cols buf + x \<and> s ! block msk ! (maskPtr + k * cols msk + x) = 0
               then 0 else s ! block buf ! j)"
  proof (intro allI impI)
    fix j assume j: "j < length (s ! block buf)"
    let ?later = "\<exists>k < length ys. \<exists>x < cols buf.
              j = bufferPtr + Suc k * cols buf + x \<and> s ! block msk ! (maskPtr + Suc k * cols msk + x) = 0"
    let ?first = "\<exists>x < cols buf. j = bufferPtr + x \<and> s ! block msk ! (maskPtr + x) = 0"
    have "(\<exists>x \<in> set [0..<cols buf]. j = bufferPtr + x \<and> s ! block msk ! (maskPtr + x) = 0) \<longleftrightarrow> ?first"
      by auto
    with r1(5)[rule_format, OF j]
    have a: "s1 ! block buf ! j = (if ?first then 0 else s ! block buf ! j)"
      by (simp only:)
    have "j < length (s1 ! block buf)" using j r1(4) by simp
    from r2(5)[rule_format, OF this]
    have b: "s' ! block buf ! j = (if ?later then 0 else s1 ! block buf ! j)"
      by (simp add: m1 sizeofUchar_def sizeofPixType_def algebra_simps)
    have split: "(\<exists>k < length (y # ys). \<exists>x < cols buf.
                    j = bufferPtr + k * cols buf + x \<and> s ! block msk ! (maskPtr + k * cols msk + x) = 0)
                 \<longleftrightarrow> ?first \<or> ?later"
    proof
      assume "\<exists>k < length (y # ys). \<exists>x < cols buf.
                    j = bufferPtr + k * cols buf + x \<and> s ! block msk ! (maskPtr + k * cols msk + x) = 0"
      then obtain k x where kx: "k < length (y # ys)" "x < cols buf"
        "j = bufferPtr + k * cols buf + x" "s ! block msk ! (maskPtr + k * cols msk + x) = 0"
        by blast
      show "?first \<or> ?later"
      proof (cases k)
        case 0
        then have ?first using kx by auto
        then show ?thesis ..
      next
        case (Suc k')
        then have "k' < length ys" using kx(1) by simp
        then have ?later using kx(2,3,4) Suc by blast
        then show ?thesis ..
      qed
    next
      assume "?first \<or> ?later"
      then show "\<exists>k < length (y # ys). \<exists>x < cols buf.
                    j = bufferPtr + k * cols buf + x \<and> s ! block msk ! (maskPtr + k * cols msk + x) = 0"
      proof
        assume ?first
        then obtain x where "x < cols buf" "j = bufferPtr + 0 * cols buf + x"
          "s ! block msk ! (maskPtr + 0 * cols msk + x) = 0" by auto
        then show ?thesis by (intro exI[of _ 0]) auto
      next
        assume ?later
        then obtain k x where "k < length ys" "x < cols buf"
          "j = bufferPtr + Suc k * cols buf + x" "s ! block msk ! (maskPtr + Suc k * cols msk + x) = 0"
          by blast
        then show ?thesis by (intro exI[of _ "Suc k"]) auto
      qed
    qed
    show "s' ! block buf ! j =
              (if \<exists>k < length (y # ys). \<exists>x < cols buf.
                    j = bufferPtr + k * cols buf + x \<and> s ! block msk ! (maskPtr + k * cols msk + x) = 0
               then 0 else s ! block buf ! j)"
      unfolding split using a b by auto
  qed
  have "length s' = length s" "\<forall>a. a \<noteq> block buf \<longrightarrow> s' ! a = s ! a"
    "length (s' ! block buf) = length (s ! block buf)"
    using r1(2,3,4) r2(2,3,4) by simp_all
  with run fin show ?case by blast
qed

lemma grid_position:
  assumes "c < n" "x < n" "r * n + c = k * n + (x::nat)"
  shows "r = k \<and> c = x"
proof -
  have "(r * n + c) div n = r" "(k * n + x) div n = k" using assms(1,2) by simp_all
  then have "r = k" using assms(3) by simp
  then show ?thesis using assms(3) by simp
qed

text \<open>
  Where the code does what the mask contract asks: two continuous matrices of equal size in
  two different blocks, masked over all rows in one call. Every pixel of the buffer whose
  mask pixel is 0 becomes 0, every other pixel and every other block stay as they were.
\<close>

lemma Parallel_Mask_continuous:
  assumes cont: "step buf = cols buf" "step msk = cols msk"
    and dims: "cols msk = cols buf" "rows msk = rows buf"
    and sep: "block buf \<noteq> block msk" "block buf < length s" "block msk < length s"
    and fits: "offset buf + rows buf * cols buf \<le> length (s ! block buf)"
      "offset msk + rows msk * cols msk \<le> length (s ! block msk)"
  shows "\<exists>s'. Parallel_Mask buf msk (0, rows buf) s = Some s' \<and> length s' = length s \<and>
           (\<forall>a. a \<noteq> block buf \<longrightarrow> s' ! a = s ! a) \<and>
           (\<forall>r < rows buf. \<forall>c < cols buf.
              pixel s' buf r c = (if pixel s msk r c = Some 0 then Some 0 else pixel s buf r c))"
proof -
  have inside: "r * cols buf + c < rows buf * cols buf" if "r < rows buf" "c < cols buf" for r c
  proof -
    have "r * cols buf + c < Suc r * cols buf" using that(2) by simp
    also have "\<dots> \<le> rows buf * cols buf" using that(1) by (intro mult_le_mono1) simp
    finally show ?thesis .
  qed
  have pre: "\<forall>k < length [0..<rows buf]. \<forall>x < cols buf.
           offset msk + k * cols msk + x < length (s ! block msk) \<and>
           offset buf + k * cols buf + x < length (s ! block buf)"
  proof (intro allI impI)
    fix k x assume "k < length [0..<rows buf]" "x < cols buf"
    then have "k * cols buf + x < rows buf * cols buf" using inside by simp
    then show "offset msk + k * cols msk + x < length (s ! block msk) \<and>
           offset buf + k * cols buf + x < length (s ! block buf)"
      using fits dims by simp
  qed
  from maskRows_spec[OF sep pre] obtain s' where
    r: "maskRows buf msk (offset buf) (offset msk) [0..<rows buf] s = Some s'"
    "length s' = length s" "\<forall>a. a \<noteq> block buf \<longrightarrow> s' ! a = s ! a"
    "length (s' ! block buf) = length (s ! block buf)"
    "\<forall>j < length (s ! block buf). s' ! block buf ! j =
       (if \<exists>k < length [0..<rows buf]. \<exists>x < cols buf.
             j = offset buf + k * cols buf + x \<and> s ! block msk ! (offset msk + k * cols msk + x) = 0
        then 0 else s ! block buf ! j)"
    by blast
  have run: "Parallel_Mask buf msk (0, rows buf) s = Some s'"
    using r(1) by (simp add: Parallel_Mask_def ptrAt_def)
  have pix: "pixel s' buf r c = (if pixel s msk r c = Some 0 then Some 0 else pixel s buf r c)"
    if rc: "r < rows buf" "c < cols buf" for r c
  proof -
    let ?j = "offset buf + r * cols buf + c"
    have jb: "?j < length (s ! block buf)" using inside[OF rc] fits(1) by simp
    have jm: "offset msk + r * cols buf + c < length (s ! block msk)"
      using inside[OF rc] fits(2) dims by simp
    have hit: "(\<exists>k < length [0..<rows buf]. \<exists>x < cols buf.
             ?j = offset buf + k * cols buf + x \<and> s ! block msk ! (offset msk + k * cols msk + x) = 0)
          \<longleftrightarrow> s ! block msk ! (offset msk + r * cols buf + c) = 0"
    proof
      assume "\<exists>k < length [0..<rows buf]. \<exists>x < cols buf.
             ?j = offset buf + k * cols buf + x \<and> s ! block msk ! (offset msk + k * cols msk + x) = 0"
      then obtain k x where kx: "x < cols buf" "?j = offset buf + k * cols buf + x"
        "s ! block msk ! (offset msk + k * cols msk + x) = 0" by blast
      from kx(2) have "r * cols buf + c = k * cols buf + x" by simp
      from grid_position[OF rc(2) kx(1) this] kx(3) dims(1)
      show "s ! block msk ! (offset msk + r * cols buf + c) = 0" by simp
    next
      assume "s ! block msk ! (offset msk + r * cols buf + c) = 0"
      then show "\<exists>k < length [0..<rows buf]. \<exists>x < cols buf.
             ?j = offset buf + k * cols buf + x \<and> s ! block msk ! (offset msk + k * cols msk + x) = 0"
        using rc dims(1) by (intro exI[of _ r] exI[of _ c]) simp
    qed
    have new: "s' ! block buf ! ?j =
        (if s ! block msk ! (offset msk + r * cols buf + c) = 0 then 0 else s ! block buf ! ?j)"
      using r(5)[rule_format, OF jb] unfolding hit .
    have p1: "pixel s' buf r c = Some (s' ! block buf ! ?j)"
      using rc jb sep(2) r(2,4) cont(1) by (simp add: pixel_def readPtr_def ptrAt_def)
    have p2: "pixel s buf r c = Some (s ! block buf ! ?j)"
      using rc jb sep(2) cont(1) by (simp add: pixel_def readPtr_def ptrAt_def)
    have p3: "pixel s msk r c = Some (s ! block msk ! (offset msk + r * cols buf + c))"
      using rc jm sep(3) cont(2) dims by (simp add: pixel_def readPtr_def ptrAt_def)
    show ?thesis unfolding p1 p2 p3 new by simp
  qed
  from run r(2,3) pix show ?thesis by blast
qed

subsection \<open>The output image of a detector\<close>

lemma writePtr_other:
  "writePtr s b i v = Some s' \<Longrightarrow> length s' = length s \<and> (\<forall>a. a \<noteq> b \<longrightarrow> s' ! a = s ! a)"
  by (auto simp: writePtr_def split: if_splits)

lemma writePixels_other:
  "writePixels m ws s = Some s' \<Longrightarrow> length s' = length s \<and> (\<forall>a. a \<noteq> block m \<longrightarrow> s' ! a = s ! a)"
proof (induction ws arbitrary: s)
  case Nil
  then show ?case by simp
next
  case (Cons w ws)
  from Cons.prems obtain s1 where one: "writePixel m w s = Some s1"
    and rest: "writePixels m ws s1 = Some s'"
    by (auto split: option.splits)
  from one have "length s1 = length s \<and> (\<forall>a. a \<noteq> block m \<longrightarrow> s1 ! a = s ! a)"
    by (auto simp: writePixel_def split: prod.splits if_splits dest!: writePtr_other)
  with Cons.IH[OF rest] show ?case by simp
qed

lemma matPixels_cong:
  "s' ! block m = s ! block m \<Longrightarrow> matPixels s' m = matPixels s m"
  by (simp add: matPixels_def)

text \<open>
  Claim C10. \<open>getOutput\<close> returns a header over a new block holding a copy of the pixels of
  the output buffer. Whatever pixels are then written through the returned image, every
  block that existed before the call is as it was, the output buffer of the detector among
  them, and the next call of \<open>getOutput\<close> copies the same pixels again, which are what the
  main loop hands to the shared memory and to the display list.
\<close>

theorem getOutput_is_a_copy:
  assumes "getOutput d s = (out, s1)"
    and "block (mOutputBuffer d) < length s"
    and "writePixels out ws s1 = Some s2"
  shows "(\<forall>b < length s. s2 ! b = s ! b) \<and>
         matPixels s2 (mOutputBuffer d) = matPixels s (mOutputBuffer d) \<and>
         snd (getOutput d s2) ! block (fst (getOutput d s2)) = matPixels s (mOutputBuffer d)"
proof -
  have out: "block out = length s" and s1: "s1 = s @ [matPixels s (mOutputBuffer d)]"
    using assms(1) by (auto simp: getOutput_def clone_def)
  from writePixels_other[OF assms(3)] have len: "length s2 = length s1"
    and other: "\<forall>a. a \<noteq> block out \<longrightarrow> s2 ! a = s1 ! a"
    by simp_all
  have old: "\<forall>b < length s. s2 ! b = s ! b"
    using other out s1 by (simp add: nth_append)
  then have same: "matPixels s2 (mOutputBuffer d) = matPixels s (mOutputBuffer d)"
    using assms(2) by (intro matPixels_cong) simp
  have "snd (getOutput d s2) ! block (fst (getOutput d s2)) = matPixels s2 (mOutputBuffer d)"
    by (simp add: getOutput_def clone_def)
  with old same show ?thesis by simp
qed

text \<open>
  The output buffer holds 5 and 6; the copy is block 1, and writing 9 into it leaves block 0
  as it was.
\<close>

theorem getOutput_is_a_copy_witness:
  "getOutput demoDetector [[5, 6]] =
     (\<lparr>block = 1, offset = 0, rows = 1, cols = 2, step = 2\<rparr>, [[5, 6], [5, 6]]) \<and>
   block (mOutputBuffer demoDetector) < length [[5, 6 :: 8 word]] \<and>
   writePixels \<lparr>block = 1, offset = 0, rows = 1, cols = 2, step = 2\<rparr> [(0, 1, 9)] [[5, 6], [5, 6]] =
     Some [[5, 6], [5, 9]] \<and>
   [[5, 6], [5, 9]] ! 0 = [[5, 6 :: 8 word]] ! 0 \<and>
   matPixels [[5, 6], [5, 9]] (mOutputBuffer demoDetector) = matPixels [[5, 6]] (mOutputBuffer demoDetector) \<and>
   snd (getOutput demoDetector [[5, 6], [5, 9]]) ! block (fst (getOutput demoDetector [[5, 6], [5, 9]])) =
     matPixels [[5, 6]] (mOutputBuffer demoDetector)"
proof -
  have a: "getOutput demoDetector [[5, 6]] =
     (\<lparr>block = 1, offset = 0, rows = 1, cols = 2, step = 2\<rparr>, [[5, 6], [5, 6]])"
    by code_simp
  have b: "block (mOutputBuffer demoDetector) < length [[5, 6 :: 8 word]]"
    by (simp add: demoDetector_def)
  have c: "writePixels \<lparr>block = 1, offset = 0, rows = 1, cols = 2, step = 2\<rparr> [(0, 1, 9)] [[5, 6], [5, 6]] =
     Some [[5, 6], [5, 9]]"
    by code_simp
  from getOutput_is_a_copy[OF a b c] a b c show ?thesis by simp
qed

end
